theory Spec2Isabelle
  imports Complex_Main
begin

section \<open>Data model\<close>

text \<open>
  The emergency-alert engine of the ride-companion backend: the \<open>EmergencyAlert\<close>,
  \<open>Reward\<close> and \<open>User\<close> collections, the \<open>/api/emergency\<close> routes, the socket
  handlers \<open>emergency-alert\<close> and \<open>emergency-response\<close>, the auto-resolve timer and
  the nearby-users query.

  An ObjectId is a natural number, and so is the string that \<open>toString()\<close> makes of
  it; a \<open>Date\<close> is its millisecond count. Which of the two a handler holds matters
  where it compares with \<open>===\<close>: the socket middleware stores \<open>socket.userId =
  user._id.toString()\<close>, a string, while the HTTP middleware stores \<open>req.user = { id:
  user._id, ... }\<close>, the ObjectId itself (with a database connection; without one no
  handler below gets as far as a comparison).
\<close>

type_synonym oid = nat
type_synonym date = int
type_synonym socket_id = string

text \<open>\<open>status\<close> of the alert schema: enum active, responded, resolved, cancelled.\<close>

datatype status = Active | Responded | Resolved | Cancelled

text \<open>A GeoJSON point as the schemas store it: \<open>coordinates = [longitude, latitude]\<close>.\<close>

record geo_point =
  coordinates :: "real \<times> real"
  address :: "string option"

text \<open>An entry of \<open>responders\<close>; \<open>respondedAt\<close> defaults to \<open>Date.now\<close>.\<close>

record responder =
  r_user :: oid
  r_respondedAt :: date
  r_message :: "string option"
  r_estimatedArrival :: "int option"

text \<open>
  A document of the \<open>EmergencyAlert\<close> collection. \<open>a_createdAt\<close> and \<open>a_updatedAt\<close> are
  the two paths that \<open>timestamps: true\<close> adds; \<open>nearbyHospitals\<close> keeps the names of
  the facilities only.
\<close>

record alert =
  a_id :: oid
  a_user :: oid
  a_type :: string
  a_severity :: string
  a_location :: geo_point
  a_description :: "string option"
  a_status :: status
  a_responders :: "responder list"
  a_nearbyHospitals :: "string list"
  a_autoResolved :: bool
  a_resolvedAt :: "date option"
  a_resolvedBy :: "oid option"
  a_createdAt :: date
  a_updatedAt :: date

text \<open>A document of the \<open>Reward\<close> collection (the paths the handlers set).\<close>

record reward =
  rw_user :: oid
  rw_activityType :: string
  rw_points :: int
  rw_description :: string
  rw_relatedActivity :: oid
  rw_relatedModel :: string

text \<open>
  A document of the \<open>User\<close> collection, restricted to the paths this subsystem reads
  or writes: the phones of \<open>emergencyContacts\<close>, \<open>currentLocation\<close>, \<open>isOnline\<close> and
  the two counters of \<open>stats\<close>.
\<close>

record user =
  u_id :: oid
  u_name :: string
  u_emergencyContacts :: "string option list"
  u_currentLocation :: geo_point
  u_isOnline :: bool
  u_helpCount :: int
  u_rewardPoints :: int

text \<open>
  A respond handler that has read the alert and passed its checks, and now waits at
  \<open>await alert.save()\<close>: what its instance holds to be written. \<open>p_status\<close> is the status
  assigned on the instance when that differs from the one loaded (\<open>save()\<close> writes the
  modified paths only), \<open>p_count\<close> the length of the instance's responder list.
\<close>

record pending =
  p_alertId :: oid
  p_reporter :: oid
  p_responder :: responder
  p_status :: "status option"
  p_count :: nat
  p_reward :: reward

text \<open>
  The state of the one server process: the three collections, the module-level
  \<open>connectedUsers\<close> map (user id to the \<open>socketId\<close> of its entry), the pending
  \<open>setTimeout\<close> callbacks of \<open>scheduleAutoResolve\<close>, the respond handlers in flight
  (with the socket of the caller, for the socket handler), and the next ObjectId.

  A pending callback is represented by the document instance it closes over (\<open>this\<close>):
  the instance built by \<open>new EmergencyAlert(...)\<close> in the creating handler. The other
  handlers obtain their own instance from \<open>findById\<close>, and nothing assigns to the
  creator's instance after it is saved.
\<close>

record world =
  db_alerts :: "alert list"
  db_rewards :: "reward list"
  db_users :: "user list"
  connectedUsers :: "oid \<rightharpoonup> socket_id"
  timers :: "alert list"
  inflight :: "(socket_id option \<times> pending) list"
  next_oid :: oid

text \<open>The distinct replies of the handlers (HTTP status and message, or socket error).\<close>

datatype error =
    InvalidLocation          \<comment> \<open>400 Alert type and location are required\<close>
  | CoordinatesRequired      \<comment> \<open>400 Longitude and latitude are required\<close>
  | DuplicateActiveAlert     \<comment> \<open>400 You already have an active emergency alert\<close>
  | AlertNotFound            \<comment> \<open>404 Emergency alert not found\<close>
  | AlertNotActive           \<comment> \<open>400 Emergency alert is no longer active\<close>
  | SelfResponseNotAllowed   \<comment> \<open>400 Cannot respond to your own emergency alert\<close>
  | DuplicateResponse        \<comment> \<open>400 You have already responded to this alert\<close>
  | NotAuthorizedToResolve   \<comment> \<open>403 Not authorized to resolve this alert\<close>
  | AlreadyResolved          \<comment> \<open>400 Alert is already resolved\<close>
  | ServerError              \<comment> \<open>500, the handler's catch block\<close>
  | SocketNotFoundOrNotActive \<comment> \<open>socket error: Emergency alert not found or not active\<close>
  | SocketFailed             \<comment> \<open>socket error emitted by the handler's catch block\<close>

section \<open>Collection access\<close>

text \<open>\<open>Model.findById\<close>: the stored document with that id, if any.\<close>

definition findById :: "oid \<Rightarrow> alert list \<Rightarrow> alert option" where
  "findById i ds = find (\<lambda>d. a_id d = i) ds"

definition findUserById :: "oid \<Rightarrow> user list \<Rightarrow> user option" where
  "findUserById i us = find (\<lambda>u. u_id u = i) us"

text \<open>
  \<open>doc.save()\<close> on a stored document writes the paths assigned since the instance was
  built (one update of the document with that \<open>_id\<close>); \<open>f\<close> is that assignment, applied
  to the stored document with the id.
\<close>

fun update_alert :: "oid \<Rightarrow> (alert \<Rightarrow> alert) \<Rightarrow> alert list \<Rightarrow> alert list" where
  "update_alert i f [] = []"
| "update_alert i f (d # ds) = (if a_id d = i then f d # ds else d # update_alert i f ds)"

text \<open>\<open>User.findByIdAndUpdate(id, {$inc: {stats.helpCount: 1, stats.rewardPoints: 50}})\<close>.\<close>

definition inc_stats :: "oid \<Rightarrow> user list \<Rightarrow> user list" where
  "inc_stats i us =
     map (\<lambda>u. if u_id u = i
                then u\<lparr>u_helpCount := u_helpCount u + 1, u_rewardPoints := u_rewardPoints u + 50\<rparr>
                else u) us"

section \<open>Auto-resolve timer\<close>

text \<open>
  \<open>scheduleAutoResolve\<close> registers a callback on the instance it is called on; the
  world keeps that instance until the callback runs.
\<close>

definition scheduleAutoResolve :: "alert \<Rightarrow> world \<Rightarrow> world" where
  "scheduleAutoResolve this w = w\<lparr>timers := timers w @ [this]\<rparr>"

text \<open>
  The callback: \<open>if (this.status === 'active')\<close> it assigns \<open>status\<close>, \<open>autoResolved\<close>
  and \<open>resolvedAt\<close> on \<open>this\<close> and saves, which writes these paths (and \<open>updatedAt\<close>)
  to the stored document.
\<close>

definition autoResolve_callback :: "alert \<Rightarrow> date \<Rightarrow> world \<Rightarrow> world" where
  "autoResolve_callback this now w =
     (if a_status this = Active
      then w\<lparr>db_alerts :=
               update_alert (a_id this)
                 (\<lambda>d. d\<lparr>a_status := Resolved, a_autoResolved := True,
                         a_resolvedAt := Some now, a_updatedAt := now\<rparr>)
                 (db_alerts w)\<rparr>
      else w)"

text \<open>The timer of alert \<open>i\<close> fires at time \<open>now\<close>: its callback runs once.\<close>

definition timer_fired :: "oid \<Rightarrow> date \<Rightarrow> world \<Rightarrow> world" where
  "timer_fired i now w =
     (case find (\<lambda>d. a_id d = i) (timers w) of
        None \<Rightarrow> w
      | Some this \<Rightarrow>
          autoResolve_callback this now
            (w\<lparr>timers := filter (\<lambda>d. a_id d \<noteq> i) (timers w)\<rparr>))"

section \<open>Comparing with the authenticated user\<close>

text \<open>
  The HTTP handlers compare \<open>x.toString() === req.user.id\<close>: a string on the left, the
  ObjectId \<open>user._id\<close> on the right. Strict equality between a string and an object is
  false whatever the two ids are.
\<close>

definition string_eq_req_user_id :: "oid \<Rightarrow> oid \<Rightarrow> bool" where
  "string_eq_req_user_id s uid = False"

section \<open>Responding\<close>

text \<open>The body of a successful reply of \<open>POST /respond/:alertId\<close>.\<close>

record respond_reply =
  rr_pointsEarned :: int
  rr_status :: status
  rr_respondersCount :: nat

text \<open>The \<open>Reward\<close> built by both respond handlers.\<close>

definition response_reward :: "oid \<Rightarrow> oid \<Rightarrow> string \<Rightarrow> reward" where
  "response_reward uid aid descr =
     \<lparr>rw_user = uid, rw_activityType = ''emergency_response'', rw_points = 50,
      rw_description = descr, rw_relatedActivity = aid, rw_relatedModel = ''EmergencyAlert''\<rparr>"

text \<open>
  \<open>responders.push(...)\<close> followed by \<open>if (alert.status === 'active') alert.status =
  'responded'\<close>, as both handlers do on their instance before saving.
\<close>

definition add_responder :: "responder \<Rightarrow> date \<Rightarrow> alert \<Rightarrow> alert" where
  "add_responder r now d =
     d\<lparr>a_responders := a_responders d @ [r],
       a_status := (if a_status d = Active then Responded else a_status d),
       a_updatedAt := now\<rparr>"

text \<open>What the handler holds after these assignments on the loaded document \<open>d\<close>.\<close>

definition to_save :: "alert \<Rightarrow> responder \<Rightarrow> date \<Rightarrow> reward \<Rightarrow> pending" where
  "to_save d r now g =
     \<lparr>p_alertId = a_id d, p_reporter = a_user d, p_responder = r,
      p_status = (if a_status (add_responder r now d) = a_status d then None
                  else Some (a_status (add_responder r now d))),
      p_count = length (a_responders (add_responder r now d)),
      p_reward = g\<rparr>"

text \<open>
  \<open>POST /api/emergency/respond/:alertId\<close> up to its \<open>await alert.save()\<close>. The checks run
  in the source's order: not found, not active, own alert (\<open>populate('user')\<close> leaves
  \<open>null\<close> for a missing reporter, and reading \<open>alert.user._id\<close> then throws into the catch
  block), already responded. \<open>message || 'On my way to help'\<close> and \<open>estimatedArrival ||
  10\<close> replace a missing, empty or zero value.
\<close>

definition respond_read_http ::
  "oid \<Rightarrow> oid \<Rightarrow> string option \<Rightarrow> int option \<Rightarrow> date \<Rightarrow> world \<Rightarrow> error + pending" where
  "respond_read_http alertId uid message estimatedArrival now w =
     (case findById alertId (db_alerts w) of
        None \<Rightarrow> Inl AlertNotFound
      | Some d \<Rightarrow>
          if a_status d \<noteq> Active then Inl AlertNotActive
          else if findUserById (a_user d) (db_users w) = None then Inl ServerError
          else if string_eq_req_user_id (a_user d) uid then Inl SelfResponseNotAllowed
          else if find (\<lambda>r. string_eq_req_user_id (r_user r) uid) (a_responders d) \<noteq> None
               then Inl DuplicateResponse
          else
            Inr (to_save d
                   \<lparr>r_user = uid, r_respondedAt = now,
                    r_message = Some (case message of None \<Rightarrow> ''On my way to help''
                                       | Some m \<Rightarrow> if m = [] then ''On my way to help'' else m),
                    r_estimatedArrival = Some (case estimatedArrival of None \<Rightarrow> 10
                                       | Some e \<Rightarrow> if e = 0 then 10 else e)\<rparr>
                   now
                   (response_reward uid alertId (''Responded to '' @ a_type d @ '' emergency''))))"

text \<open>
  The rest of a respond handler, from the moment its \<open>alert.save()\<close> reaches the store:
  the \<open>$push\<close> of the responder and the \<open>$set\<close> of the modified status are applied to the
  stored document as it is then (the update carries no condition on the status or on
  the version), the reward is inserted and the responder's counters are incremented.
\<close>

definition respond_save :: "pending \<Rightarrow> date \<Rightarrow> world \<Rightarrow> world" where
  "respond_save p now w =
     w\<lparr>db_alerts :=
         update_alert (p_alertId p)
           (\<lambda>s. s\<lparr>a_responders := a_responders s @ [p_responder p],
                   a_status := (case p_status p of None \<Rightarrow> a_status s | Some st \<Rightarrow> st),
                   a_updatedAt := now\<rparr>)
           (db_alerts w),
       db_rewards := db_rewards w @ [p_reward p],
       db_users := inc_stats (r_user (p_responder p)) (db_users w)\<rparr>"

text \<open>
  The whole HTTP handler when nothing else touches the store between its read and its
  save.
\<close>

definition post_respond ::
  "oid \<Rightarrow> oid \<Rightarrow> string option \<Rightarrow> int option \<Rightarrow> date \<Rightarrow> world \<Rightarrow> (error + respond_reply) \<times> world" where
  "post_respond alertId uid message estimatedArrival now w =
     (case respond_read_http alertId uid message estimatedArrival now w of
        Inl err \<Rightarrow> (Inl err, w)
      | Inr p \<Rightarrow>
          (Inr \<lparr>rr_pointsEarned = 50,
                 rr_status = (case p_status p of None \<Rightarrow> Active | Some st \<Rightarrow> st),
                 rr_respondersCount = p_count p\<rparr>,
           respond_save p now w))"

text \<open>What a socket handler emits: the receiving socket and the event.\<close>

datatype event =
    EmergencyAlertPush oid oid               \<comment> \<open>emergency-alert: alertId, userId\<close>
  | EmergencyAlertSent oid nat               \<comment> \<open>emergency-alert-sent: alertId, notifiedUsers\<close>
  | EmergencyResponse oid oid                \<comment> \<open>emergency-response: alertId, responderId\<close>
  | EmergencyResponseSent oid int            \<comment> \<open>emergency-response-sent: alertId, pointsEarned\<close>
  | ErrorEvent error                         \<comment> \<open>error\<close>

type_synonym emission = "socket_id \<times> event"

text \<open>
  \<open>socket.on('emergency-response')\<close> for user \<open>uid\<close>, up to its \<open>await alert.save()\<close>: one
  check (\<open>!alert || alert.status !== 'active'\<close>), then the push and the status assignment.
\<close>

definition respond_read_socket ::
  "oid \<Rightarrow> oid \<Rightarrow> string option \<Rightarrow> int option \<Rightarrow> date \<Rightarrow> world \<Rightarrow> error + pending" where
  "respond_read_socket uid alertId message estimatedArrival now w =
     (case findById alertId (db_alerts w) of
        None \<Rightarrow> Inl SocketNotFoundOrNotActive
      | Some d \<Rightarrow>
          if a_status d \<noteq> Active then Inl SocketNotFoundOrNotActive
          else
            Inr (to_save d
                   \<lparr>r_user = uid, r_respondedAt = now, r_message = message,
                    r_estimatedArrival = estimatedArrival\<rparr>
                   now
                   (response_reward uid alertId ''Responded to emergency alert'')))"

text \<open>
  The rest of the socket handler once its save has landed: the reporter is told if
  connected, the reward and the counters are written, the caller is acknowledged.
\<close>

definition respond_finish_socket ::
  "socket_id \<Rightarrow> pending \<Rightarrow> date \<Rightarrow> world \<Rightarrow> emission list \<times> world" where
  "respond_finish_socket sid p now w =
     ((case connectedUsers w (p_reporter p) of
         None \<Rightarrow> []
       | Some csid \<Rightarrow> [(csid, EmergencyResponse (p_alertId p) (r_user (p_responder p)))])
      @ [(sid, EmergencyResponseSent (p_alertId p) 50)],
      respond_save p now w)"

definition on_emergency_response ::
  "socket_id \<Rightarrow> oid \<Rightarrow> oid \<Rightarrow> string option \<Rightarrow> int option \<Rightarrow> date \<Rightarrow> world \<Rightarrow> emission list \<times> world" where
  "on_emergency_response sid uid alertId message estimatedArrival now w =
     (case respond_read_socket uid alertId message estimatedArrival now w of
        Inl err \<Rightarrow> ([(sid, ErrorEvent err)], w)
      | Inr p \<Rightarrow> respond_finish_socket sid p now w)"

section \<open>Resolving\<close>

text \<open>
  \<open>PUT /api/emergency/resolve/:alertId\<close>: not found, then the authorisation check
  (\<open>alert.user.toString() === req.user.id || alert.responders.some(r =>
  r.user.toString() === req.user.id)\<close>), then \<open>status === 'resolved'\<close>, then the write.
\<close>

definition canResolve :: "oid \<Rightarrow> alert \<Rightarrow> bool" where
  "canResolve uid d =
     (string_eq_req_user_id (a_user d) uid
      \<or> list_ex (\<lambda>r. string_eq_req_user_id (r_user r) uid) (a_responders d))"

definition put_resolve :: "oid \<Rightarrow> oid \<Rightarrow> date \<Rightarrow> world \<Rightarrow> (error + alert) \<times> world" where
  "put_resolve alertId uid now w =
     (case findById alertId (db_alerts w) of
        None \<Rightarrow> (Inl AlertNotFound, w)
      | Some d \<Rightarrow>
          if \<not> canResolve uid d then (Inl NotAuthorizedToResolve, w)
          else if a_status d = Resolved then (Inl AlreadyResolved, w)
          else
            let f = (\<lambda>d. d\<lparr>a_status := Resolved, a_resolvedAt := Some now,
                            a_resolvedBy := Some uid, a_updatedAt := now\<rparr>)
            in (Inr (f d), w\<lparr>db_alerts := update_alert alertId f (db_alerts w)\<rparr>))"

section \<open>Nearby users\<close>

text \<open>
  Modelled from the spec: the persistence collaborator's geospatial query (the
  \<open>$near\<close> operator with \<open>$maxDistance\<close> that \<open>findNearby\<close> hands to the database) is
  not code of this repository. It yields the documents whose point is at most
  \<open>maxDistance\<close> from the centre, nearest first. \<open>geoDist\<close>, the distance the database
  computes between two coordinate pairs, is a parameter.
\<close>

definition near_query ::
  "(real \<times> real \<Rightarrow> real \<times> real \<Rightarrow> real) \<Rightarrow> real \<times> real \<Rightarrow> real \<Rightarrow> user list \<Rightarrow> user list" where
  "near_query geoDist centre maxDistance us =
     sort_key (\<lambda>u. geoDist centre (coordinates (u_currentLocation u)))
       (filter (\<lambda>u. geoDist centre (coordinates (u_currentLocation u)) \<le> maxDistance) us)"

text \<open>
  \<open>userSchema.statics.findNearby\<close>: the \<open>$near\<close> query, with \<open>isOnline: true\<close> added
  unless \<open>options.includeOffline === true\<close>.
\<close>

definition findNearby ::
  "(real \<times> real \<Rightarrow> real \<times> real \<Rightarrow> real) \<Rightarrow> real \<Rightarrow> real \<Rightarrow> real \<Rightarrow> bool \<Rightarrow> user list \<Rightarrow> user list" where
  "findNearby geoDist longitude latitude maxDistance includeOffline us =
     near_query geoDist (longitude, latitude) maxDistance
       (if includeOffline then us else filter u_isOnline us)"

text \<open>
  A query-string value and what \<open>parseFloat\<close> / \<open>parseInt\<close> makes of it: absent, not a
  number, or a number.
\<close>

datatype 'a parsed = Absent | NaN | Num 'a

text \<open>
  Modelled from the spec: the same collaborator refuses a query (it throws) whose centre
  is outside longitude \<open>\<plusminus>180\<close> and latitude \<open>\<plusminus>90\<close> or whose \<open>$maxDistance\<close> is negative.
\<close>

definition geo_query_ok :: "real \<Rightarrow> real \<Rightarrow> real \<Rightarrow> bool" where
  "geo_query_ok lon lat r =
     (- 180 \<le> lon \<and> lon \<le> 180 \<and> - 90 \<le> lat \<and> lat \<le> 90 \<and> 0 \<le> r)"

text \<open>\<open>const { radius = 10000 } = req.query\<close>, then \<open>parseInt(radius)\<close>.\<close>

definition parse_radius :: "int parsed \<Rightarrow> real parsed" where
  "parse_radius radius =
     (case radius of Absent \<Rightarrow> Num 10000 | NaN \<Rightarrow> NaN | Num r \<Rightarrow> Num (real_of_int r))"

text \<open>
  \<open>GET /api/auth/nearby-users\<close>: 400 without both coordinates, then \<open>findNearby\<close> and
  the filter \<open>user._id.toString() !== req.user.id\<close> under the comment "Filter out
  current user". A value that parses to NaN, or a query the database refuses, ends in
  the catch block (500).
\<close>

definition get_nearby_users ::
  "(real \<times> real \<Rightarrow> real \<times> real \<Rightarrow> real) \<Rightarrow> oid \<Rightarrow> real parsed \<Rightarrow> real parsed \<Rightarrow> int parsed \<Rightarrow> bool
     \<Rightarrow> world \<Rightarrow> error + user list" where
  "get_nearby_users geoDist uid longitude latitude radius includeOffline w =
     (case (longitude, latitude) of
        (Absent, _) \<Rightarrow> Inl CoordinatesRequired
      | (_, Absent) \<Rightarrow> Inl CoordinatesRequired
      | (Num lon, Num lat) \<Rightarrow>
          (case parse_radius radius of
             Num r \<Rightarrow>
               if geo_query_ok lon lat r
               then Inr (filter (\<lambda>u. \<not> string_eq_req_user_id (u_id u) uid)
                           (findNearby geoDist lon lat r includeOffline (db_users w)))
               else Inl ServerError
           | _ \<Rightarrow> Inl ServerError)
      | _ \<Rightarrow> Inl ServerError)"

section \<open>Creating an alert\<close>

text \<open>The body of a create request (HTTP body or socket payload).\<close>

record req_location =
  latitude :: "real option"
  longitude :: "real option"
  loc_address :: "string option"

record alert_request =
  q_type :: "string option"
  q_severity :: "string option"
  q_location :: "req_location option"
  q_description :: "string option"

text \<open>JavaScript truthiness of an optional string and of an optional number.\<close>

definition truthy_str :: "string option \<Rightarrow> bool" where
  "truthy_str v = (case v of None \<Rightarrow> False | Some s \<Rightarrow> s \<noteq> [])"

definition truthy_num :: "real option \<Rightarrow> bool" where
  "truthy_num v = (case v of None \<Rightarrow> False | Some x \<Rightarrow> x \<noteq> 0)"

definition alert_types :: "string list" where
  "alert_types = [''accident'', ''breakdown'', ''medical'', ''battery'', ''theft'', ''other'']"

definition severities :: "string list" where
  "severities = [''low'', ''medium'', ''high'', ''critical'']"

text \<open>
  \<open>new EmergencyAlert({...})\<close> followed by \<open>save()\<close>: the schema's validators
  (\<open>type\<close> required and in its enum, \<open>severity\<close> in its enum with default medium,
  \<open>description\<close> of at most 500 characters) and the \<open>2dsphere\<close> index on \<open>location\<close>,
  which refuses a point that is not two numbers within longitude \<open>\<plusminus>180\<close> and latitude
  \<open>\<plusminus>90\<close>. \<open>None\<close> is the rejected save; otherwise the stored document, with the
  schema's defaults.
\<close>

definition save_new_alert ::
  "oid \<Rightarrow> oid \<Rightarrow> string option \<Rightarrow> string option \<Rightarrow> req_location \<Rightarrow> string option
     \<Rightarrow> string list \<Rightarrow> date \<Rightarrow> alert option" where
  "save_new_alert i uid type severity location description hospitals now =
     (case (type, longitude location, latitude location) of
        (Some t, Some lon, Some lat) \<Rightarrow>
          if t \<noteq> [] \<and> t \<in> set alert_types
             \<and> (case severity of None \<Rightarrow> True | Some s \<Rightarrow> s \<in> set severities)
             \<and> (case description of None \<Rightarrow> True | Some x \<Rightarrow> length x \<le> 500)
             \<and> - 180 \<le> lon \<and> lon \<le> 180 \<and> - 90 \<le> lat \<and> lat \<le> 90
          then Some \<lparr>a_id = i, a_user = uid, a_type = t,
                     a_severity = (case severity of None \<Rightarrow> ''medium'' | Some s \<Rightarrow> s),
                     a_location = \<lparr>coordinates = (lon, lat), address = loc_address location\<rparr>,
                     a_description = description, a_status = Active, a_responders = [],
                     a_nearbyHospitals = hospitals, a_autoResolved = False,
                     a_resolvedAt = None, a_resolvedBy = None,
                     a_createdAt = now, a_updatedAt = now\<rparr>
          else None
      | _ \<Rightarrow> None)"

text \<open>
  The duplicate check of \<open>POST /alert\<close>: \<open>findOne({user, status: 'active', createdAt:
  {$gte: now - 5 * 60 * 1000}})\<close>.
\<close>

definition recentAlert :: "oid \<Rightarrow> date \<Rightarrow> alert list \<Rightarrow> alert option" where
  "recentAlert uid now ds =
     find (\<lambda>d. a_user d = uid \<and> a_status d = Active \<and> now - 5 * 60 * 1000 \<le> a_createdAt d) ds"

section \<open>External notification\<close>

text \<open>The environment variables \<open>notifyContacts\<close> reads.\<close>

record env =
  TWILIO_ACCOUNT_SID :: "string option"
  TWILIO_AUTH_TOKEN :: "string option"
  TWILIO_FROM :: "string option"
  TWILIO_WHATSAPP_FROM :: "string option"
  ACCIDENT_SERVICE_NUMBER :: "string option"
  BREAKDOWN_SERVICE_NUMBER :: "string option"
  TOWING_NUMBER :: "string option"
  MEDICAL_SERVICE_NUMBER :: "string option"
  FIRE_SERVICE_NUMBER :: "string option"

text \<open>
  What the outside world does to one run of \<open>notifyContacts\<close>: which of its awaited
  calls throw (the user lookup, the dynamic import and client construction of the
  gateway module, each SMS, each WhatsApp message, the voice call).
\<close>

record outcomes =
  findUser_throws :: bool
  twilio_init_throws :: bool
  sms_throws :: "string \<Rightarrow> bool"
  whatsapp_throws :: "string \<Rightarrow> bool"
  call_throws :: bool

datatype exn = DbError | ModuleError

text \<open>What a run leaves behind: messages handed to the gateway and console lines.\<close>

datatype effect =
    SentSMS string
  | SentWhatsApp string
  | PlacedCall string
  | Logged string

text \<open>\<open>a || b\<close> on strings.\<close>

definition or_str :: "string option \<Rightarrow> string \<Rightarrow> string" where
  "or_str a b = (case a of None \<Rightarrow> b | Some s \<Rightarrow> if s = [] then b else s)"

text \<open>\<open>serviceMap[alert.type] || ''\<close>.\<close>

definition serviceNumber :: "env \<Rightarrow> string \<Rightarrow> string" where
  "serviceNumber e t =
     (if t = ''accident'' then or_str (ACCIDENT_SERVICE_NUMBER e) ''1033''
      else if t = ''breakdown''
           then or_str (BREAKDOWN_SERVICE_NUMBER e) (or_str (TOWING_NUMBER e) [])
      else if t = ''medical'' then or_str (MEDICAL_SERVICE_NUMBER e) ''108''
      else if t = ''fire'' then or_str (FIRE_SERVICE_NUMBER e) ''101''
      else [])"

text \<open>
  The phones collected from \<open>userDoc.emergencyContacts\<close> (\<open>if (c.phone)\<close>); the user
  schema has no path \<open>emergencyContact\<close>, so the second source is always undefined.
\<close>

definition contact_phones :: "user option \<Rightarrow> string list" where
  "contact_phones userDoc =
     (case userDoc of
        None \<Rightarrow> []
      | Some u \<Rightarrow>
          concat (map (\<lambda>c. case c of None \<Rightarrow> [] | Some p \<Rightarrow> if p = [] then [] else [p])
                    (u_emergencyContacts u)))"

text \<open>
  The loop over the contacts inside the gateway branch: each send sits in its own
  \<open>try/catch\<close>; a failed SMS is logged, a failed WhatsApp message is dropped.
\<close>

fun send_to_contacts :: "outcomes \<Rightarrow> bool \<Rightarrow> string list \<Rightarrow> effect list" where
  "send_to_contacts oc wa [] = []"
| "send_to_contacts oc wa (to # rest) =
     (if sms_throws oc to then [Logged (''Twilio SMS error for '' @ to)] else [SentSMS to])
     @ (if wa then (if whatsapp_throws oc to then [] else [SentWhatsApp to]) else [])
     @ send_to_contacts oc wa rest"

text \<open>
  The inner \<open>try\<close> of the gateway branch: \<open>Inl\<close> is an exception leaving it (the import
  or the client construction), \<open>Inr\<close> is the normal \<open>return\<close>.
\<close>

definition twilio_branch :: "env \<Rightarrow> outcomes \<Rightarrow> string list \<Rightarrow> string \<Rightarrow> exn + effect list" where
  "twilio_branch e oc contacts sn =
     (if twilio_init_throws oc then Inl ModuleError
      else Inr (send_to_contacts oc (truthy_str (TWILIO_WHATSAPP_FROM e)) contacts
                @ (if sn \<noteq> []
                   then (if call_throws oc
                         then [Logged (''Twilio call error to service number '' @ sn)]
                         else [PlacedCall sn])
                   else [])))"

definition simulated :: "string list \<Rightarrow> string \<Rightarrow> effect list" where
  "simulated contacts sn =
     Logged ''Simulated notification to contacts''
     # (if sn \<noteq> [] then [Logged ''Simulated call to service number''] else [])"

text \<open>\<open>if (twilioSid && twilioToken && twilioFrom)\<close>.\<close>

definition twilio_configured :: "env \<Rightarrow> bool" where
  "twilio_configured e =
     (truthy_str (TWILIO_ACCOUNT_SID e) \<and> truthy_str (TWILIO_AUTH_TOKEN e)
      \<and> truthy_str (TWILIO_FROM e))"

text \<open>
  \<open>notifyContacts\<close>: the body of its outer \<open>try\<close>, then the outer \<open>catch\<close>. \<open>Inl\<close>
  would be a rejection of the promise it returns.
\<close>

definition notifyContacts_try :: "env \<Rightarrow> outcomes \<Rightarrow> user list \<Rightarrow> alert \<Rightarrow> exn + effect list" where
  "notifyContacts_try e oc us a =
     (if findUser_throws oc then Inl DbError
      else
        let contacts = contact_phones (findUserById (a_user a) us);
            sn = serviceNumber e (a_type a)
        in if twilio_configured e
           then (case twilio_branch e oc contacts sn of
                   Inr es \<Rightarrow> Inr es
                 | Inl _ \<Rightarrow> Inr (Logged ''Twilio module not available'' # simulated contacts sn))
           else Inr (simulated contacts sn))"

definition notifyContacts :: "env \<Rightarrow> outcomes \<Rightarrow> user list \<Rightarrow> alert \<Rightarrow> exn + effect list" where
  "notifyContacts e oc us a =
     (case notifyContacts_try e oc us a of
        Inl _ \<Rightarrow> Inr [Logged ''notifyContacts error'']
      | Inr es \<Rightarrow> Inr es)"

section \<open>The two create handlers\<close>

text \<open>
  \<open>POST /api/emergency/alert\<close> for the authenticated user \<open>uid\<close>. \<open>hospitals\<close> is what
  \<open>findNearbyHospitals\<close> returns (it catches its own errors and returns \<open>[]\<close>). The
  result carries the reply, the effects of the un-awaited notification block
  (\<open>try { await notifyContacts(alert) } catch { log }\<close>) and the new world. A rejected
  \<open>save()\<close> reaches the handler's catch block (500).
\<close>

definition post_alert ::
  "env \<Rightarrow> outcomes \<Rightarrow> string list \<Rightarrow> oid \<Rightarrow> alert_request \<Rightarrow> date \<Rightarrow> world
     \<Rightarrow> (error + alert) \<times> effect list \<times> world" where
  "post_alert e oc hospitals uid req now w =
     (case q_location req of
        None \<Rightarrow> (Inl InvalidLocation, [], w)
      | Some loc \<Rightarrow>
          if \<not> truthy_str (q_type req) then (Inl InvalidLocation, [], w)
          else if \<not> truthy_num (latitude loc) then (Inl InvalidLocation, [], w)
          else if \<not> truthy_num (longitude loc) then (Inl InvalidLocation, [], w)
          else if recentAlert uid now (db_alerts w) \<noteq> None
          then (Inl DuplicateActiveAlert, [], w)
          else
            (case save_new_alert (next_oid w) uid (q_type req)
                    (Some (or_str (q_severity req) ''medium'')) loc (q_description req)
                    (if q_type req = Some ''medical'' \<or> q_type req = Some ''accident''
                     then hospitals else [])
                    now of
               None \<Rightarrow> (Inl ServerError, [], w)
             | Some a \<Rightarrow>
                 let w' = scheduleAutoResolve a
                            (w\<lparr>db_alerts := db_alerts w @ [a], next_oid := Suc (next_oid w)\<rparr>)
                 in (Inr a,
                     (case notifyContacts e oc (db_users w') a of
                        Inl _ \<Rightarrow> [Logged ''Failed to notify contacts'']
                      | Inr es \<Rightarrow> es),
                     w')))"

text \<open>
  The fan-out loop of the socket handler: \<open>nearbyUsers.forEach\<close>, which emits to a user
  that has an entry in \<open>connectedUsers\<close> and is not the sender. It keeps no record of
  what it has emitted. Of the payload the model keeps \<open>alertId\<close> and \<open>userId\<close>; the
  rest (the request's fields and the \<open>calculateDistance\<close> figure) is echoed data.
\<close>

fun notify_nearby :: "(oid \<rightharpoonup> socket_id) \<Rightarrow> oid \<Rightarrow> oid \<Rightarrow> user list \<Rightarrow> emission list" where
  "notify_nearby conn alertId sender [] = []"
| "notify_nearby conn alertId sender (u # us) =
     (case conn (u_id u) of
        None \<Rightarrow> []
      | Some csid \<Rightarrow>
          if u_id u \<noteq> sender then [(csid, EmergencyAlertPush alertId sender)] else [])
     @ notify_nearby conn alertId sender us"

text \<open>
  \<open>socket.on('emergency-alert')\<close> for the socket \<open>sid\<close> of user \<open>uid\<close>: build and save
  the alert (no duplicate check on this path), query the users within 10 km, run the
  fan-out loop, schedule the timer, acknowledge with \<open>notifiedUsers: nearbyUsers.length\<close>.
  A payload without \<open>location\<close> throws before the save; that and a rejected save reach
  the catch block, which emits \<open>error\<close>.
\<close>

definition on_emergency_alert ::
  "(real \<times> real \<Rightarrow> real \<times> real \<Rightarrow> real) \<Rightarrow> socket_id \<Rightarrow> oid \<Rightarrow> alert_request \<Rightarrow> date \<Rightarrow> world
     \<Rightarrow> emission list \<times> world" where
  "on_emergency_alert geoDist sid uid req now w =
     (case q_location req of
        None \<Rightarrow> ([(sid, ErrorEvent SocketFailed)], w)
      | Some loc \<Rightarrow>
          (case save_new_alert (next_oid w) uid (q_type req) (q_severity req) loc
                  (q_description req) [] now of
             None \<Rightarrow> ([(sid, ErrorEvent SocketFailed)], w)
           | Some a \<Rightarrow>
               let w' = w\<lparr>db_alerts := db_alerts w @ [a], next_oid := Suc (next_oid w)\<rparr>;
                   lon = fst (coordinates (a_location a));
                   lat = snd (coordinates (a_location a));
                   nearbyUsers = findNearby geoDist lon lat 10000 False (db_users w')
               in (notify_nearby (connectedUsers w') (a_id a) uid nearbyUsers
                   @ [(sid, EmergencyAlertSent (a_id a) (length nearbyUsers))],
                   scheduleAutoResolve a w')))"

section \<open>Sequences of operations\<close>

text \<open>A call of one of the two respond entry points, aimed at a given alert.\<close>

datatype respond_call =
    ViaHttp oid "string option" "int option" date
  | ViaSocket socket_id oid "string option" "int option" date

fun caller :: "respond_call \<Rightarrow> oid" where
  "caller (ViaHttp uid m e t) = uid"
| "caller (ViaSocket sid uid m e t) = uid"

text \<open>
  One call handled with nothing in between its read and its save: whether it succeeded
  (the 200 reply, or the \<open>emergency-response-sent\<close> acknowledgement) and the world it
  leaves.
\<close>

fun run_respond :: "oid \<Rightarrow> respond_call \<Rightarrow> world \<Rightarrow> bool \<times> world" where
  "run_respond aid (ViaHttp uid m e t) w =
     (case post_respond aid uid m e t w of
        (Inl _, w') \<Rightarrow> (False, w')
      | (Inr _, w') \<Rightarrow> (True, w'))"
| "run_respond aid (ViaSocket sid uid m e t) w =
     (case on_emergency_response sid uid aid m e t w of
        (ems, w') \<Rightarrow> ((sid, EmergencyResponseSent aid 50) \<in> set ems, w'))"

text \<open>
  Calls that do not overlap: each call is read and saved before the next one is read.
\<close>

fun run_responds :: "oid \<Rightarrow> respond_call list \<Rightarrow> world \<Rightarrow> bool list \<times> world" where
  "run_responds aid [] w = ([], w)"
| "run_responds aid (c # cs) w =
     (case run_respond aid c w of
        (ok, w') \<Rightarrow> (case run_responds aid cs w' of (oks, w'') \<Rightarrow> (ok # oks, w'')))"

text \<open>The \<open>emergency_response\<close> rewards stored for an alert.\<close>

definition grants :: "oid \<Rightarrow> world \<Rightarrow> reward list" where
  "grants aid w =
     filter (\<lambda>g. rw_relatedActivity g = aid \<and> rw_activityType g = ''emergency_response'')
       (db_rewards w)"

text \<open>
  The units in which the server's work on alerts interleaves. A handler that awaits
  nothing between touching the store twice is one operation. A respond handler reads the
  alert, awaits, and saves: \<open>RespondHttpRead\<close> / \<open>RespondSocketRead\<close> is the handler up to
  its \<open>await alert.save()\<close>, which joins the handlers in flight when its checks pass, and
  \<open>RespondSave k\<close> is the save of the \<open>k\<close>-th handler in flight reaching the store, with
  the rest of that handler. \<open>RespondHttp\<close> / \<open>RespondSocket\<close> is a respond handled with
  nothing in between.
\<close>

datatype operation =
    CreateHttp env outcomes "string list" oid alert_request date
  | CreateSocket socket_id oid alert_request date
  | RespondHttp oid oid "string option" "int option" date
  | RespondSocket socket_id oid oid "string option" "int option" date
  | RespondHttpRead oid oid "string option" "int option" date
  | RespondSocketRead socket_id oid oid "string option" "int option" date
  | RespondSave nat date
  | ResolveHttp oid oid date
  | TimerFired oid date

fun drop_nth :: "nat \<Rightarrow> 'a list \<Rightarrow> 'a list" where
  "drop_nth k xs = take k xs @ drop (Suc k) xs"

text \<open>One operation: what it emits on the sockets and the world it leaves.\<close>

fun step_out ::
  "(real \<times> real \<Rightarrow> real \<times> real \<Rightarrow> real) \<Rightarrow> operation \<Rightarrow> world \<Rightarrow> emission list \<times> world" where
  "step_out g (CreateHttp e oc hs uid req now) w = ([], snd (snd (post_alert e oc hs uid req now w)))"
| "step_out g (CreateSocket sid uid req now) w = on_emergency_alert g sid uid req now w"
| "step_out g (RespondHttp aid uid m e now) w = ([], snd (post_respond aid uid m e now w))"
| "step_out g (RespondSocket sid uid aid m e now) w = on_emergency_response sid uid aid m e now w"
| "step_out g (RespondHttpRead aid uid m e now) w =
     (case respond_read_http aid uid m e now w of
        Inl err \<Rightarrow> ([], w)
      | Inr p \<Rightarrow> ([], w\<lparr>inflight := inflight w @ [(None, p)]\<rparr>))"
| "step_out g (RespondSocketRead sid uid aid m e now) w =
     (case respond_read_socket uid aid m e now w of
        Inl err \<Rightarrow> ([(sid, ErrorEvent err)], w)
      | Inr p \<Rightarrow> ([], w\<lparr>inflight := inflight w @ [(Some sid, p)]\<rparr>))"
| "step_out g (RespondSave k now) w =
     (if k < length (inflight w)
      then (case inflight w ! k of
              (None, p) \<Rightarrow> ([], respond_save p now (w\<lparr>inflight := drop_nth k (inflight w)\<rparr>))
            | (Some sid, p) \<Rightarrow>
                respond_finish_socket sid p now (w\<lparr>inflight := drop_nth k (inflight w)\<rparr>))
      else ([], w))"
| "step_out g (ResolveHttp aid uid now) w = ([], snd (put_resolve aid uid now w))"
| "step_out g (TimerFired aid now) w = ([], timer_fired aid now w)"

definition step :: "(real \<times> real \<Rightarrow> real \<times> real \<Rightarrow> real) \<Rightarrow> operation \<Rightarrow> world \<Rightarrow> world" where
  "step g op w = snd (step_out g op w)"

fun run :: "(real \<times> real \<Rightarrow> real \<times> real \<Rightarrow> real) \<Rightarrow> operation list \<Rightarrow> world \<Rightarrow> world" where
  "run g [] w = w"
| "run g (op # ops) w = run g ops (step g op w)"

text \<open>Everything emitted along a run, in order.\<close>

fun run_out ::
  "(real \<times> real \<Rightarrow> real \<times> real \<Rightarrow> real) \<Rightarrow> operation list \<Rightarrow> world \<Rightarrow> emission list" where
  "run_out g [] w = []"
| "run_out g (op # ops) w = fst (step_out g op w) @ run_out g ops (step g op w)"


text \<open>An operation that is not one half of a respond split at its await.\<close>

fun unsplit :: "operation \<Rightarrow> bool" where
  "unsplit (RespondHttpRead aid uid m e now) = False"
| "unsplit (RespondSocketRead sid uid aid m e now) = False"
| "unsplit (RespondSave k now) = False"
| "unsplit _ = True"

text \<open>A server that has just started: no alert stored, no timer, no handler in flight.\<close>

definition fresh :: "world \<Rightarrow> bool" where
  "fresh w = (db_alerts w = [] \<and> timers w = [] \<and> inflight w = [])"

text \<open>
  What every run from a fresh world keeps. Of a stored alert: its id is below the next
  one to be given out, it is not cancelled, it has no responder while it is active, and
  no timer is pending for it once it is resolved. Of a handler in flight: it is about to
  set the status to \<open>responded\<close>.
\<close>

definition alert_inv :: "world \<Rightarrow> alert \<Rightarrow> bool" where
  "alert_inv w d =
     (a_id d < next_oid w \<and> a_status d \<noteq> Cancelled
      \<and> (if a_status d = Active then a_responders d = [] else True)
      \<and> (if a_status d = Resolved then list_all (\<lambda>t. a_id t \<noteq> a_id d) (timers w) else True))"

definition world_inv :: "world \<Rightarrow> bool" where
  "world_inv w =
     (list_all (alert_inv w) (db_alerts w)
      \<and> list_all (\<lambda>sp. p_status (snd sp) = Some Responded) (inflight w))"

text \<open>What a run of unsplit operations keeps besides.\<close>

definition unsplit_inv :: "world \<Rightarrow> bool" where
  "unsplit_inv w =
     (world_inv w \<and> inflight w = []
      \<and> list_all (\<lambda>d. length (a_responders d) \<le> 1) (db_alerts w))"

text \<open>The sockets that a list of emissions pushes an \<open>emergency-alert\<close> of alert \<open>aid\<close> to.\<close>

fun is_push :: "oid \<Rightarrow> event \<Rightarrow> bool" where
  "is_push aid (EmergencyAlertPush i s) = (i = aid)"
| "is_push aid _ = False"

definition push_targets :: "oid \<Rightarrow> emission list \<Rightarrow> socket_id list" where
  "push_targets aid ems = map fst (filter (\<lambda>em. is_push aid (snd em)) ems)"

text \<open>The alert ids that the pushes in a list of emissions carry.\<close>

fun push_id :: "emission \<Rightarrow> oid list" where
  "push_id (s, EmergencyAlertPush i u) = [i]"
| "push_id _ = []"

definition push_ids :: "emission list \<Rightarrow> oid list" where
  "push_ids ems = concat (map push_id ems)"

section \<open>A worked scene\<close>

text \<open>
  Four riders around (12.97 N, 77.59 E): rider 1 reports; rider 2 is connected and
  about a kilometre away; rider 3 is marked online (the login route sets \<open>isOnline\<close>)
  but has no socket; rider 4 is connected and out of range. \<open>demo_dist\<close> stands for the
  database's distance in the scene: 111 km per degree along each axis.
\<close>

definition demo_dist :: "real \<times> real \<Rightarrow> real \<times> real \<Rightarrow> real" where
  "demo_dist p q = 111000 * (\<bar>fst p - fst q\<bar> + \<bar>snd p - snd q\<bar>)"

definition rider :: "oid \<Rightarrow> real \<Rightarrow> real \<Rightarrow> user" where
  "rider i lon lat =
     \<lparr>u_id = i, u_name = ''rider'', u_emergencyContacts = [Some ''+911234500001'', None],
      u_currentLocation = \<lparr>coordinates = (lon, lat), address = None\<rparr>,
      u_isOnline = True, u_helpCount = 0, u_rewardPoints = 0\<rparr>"

definition demo_world :: world where
  "demo_world =
     \<lparr>db_alerts = [], db_rewards = [],
      db_users = [rider 4 (7775 / 100) (1297 / 100), rider 3 (7762 / 100) (1298 / 100),
                  rider 1 (7759 / 100) (1297 / 100), rider 2 (7760 / 100) (1297 / 100)],
      connectedUsers = [1 \<mapsto> ''s1'', 2 \<mapsto> ''s2'', 4 \<mapsto> ''s4''],
      timers = [], inflight = [], next_oid = 100\<rparr>"

definition demo_request :: alert_request where
  "demo_request =
     \<lparr>q_type = Some ''medical'', q_severity = Some ''high'',
      q_location = Some \<lparr>latitude = Some (1297 / 100), longitude = Some (7759 / 100),
                          loc_address = None\<rparr>,
      q_description = None\<rparr>"

definition demo_env :: env where
  "demo_env =
     \<lparr>TWILIO_ACCOUNT_SID = Some ''sid'', TWILIO_AUTH_TOKEN = Some ''token'',
      TWILIO_FROM = Some ''+15550000000'', TWILIO_WHATSAPP_FROM = None,
      ACCIDENT_SERVICE_NUMBER = None, BREAKDOWN_SERVICE_NUMBER = None, TOWING_NUMBER = None,
      MEDICAL_SERVICE_NUMBER = None, FIRE_SERVICE_NUMBER = None\<rparr>"

text \<open>The gateway at its worst: every awaited call of the notification path throws.\<close>

definition all_fail :: outcomes where
  "all_fail =
     \<lparr>findUser_throws = True, twilio_init_throws = True, sms_throws = (\<lambda>_. True),
      whatsapp_throws = (\<lambda>_. True), call_throws = True\<rparr>"

text \<open>
  A gateway configured with a WhatsApp sender, and an outside world in which every call
  succeeds except the WhatsApp sends.
\<close>

definition demo_env_whatsapp :: env where
  "demo_env_whatsapp = demo_env\<lparr>TWILIO_WHATSAPP_FROM := Some ''whatsapp:+15550000000''\<rparr>"

definition whatsapp_fails :: outcomes where
  "whatsapp_fails =
     \<lparr>findUser_throws = False, twilio_init_throws = False, sms_throws = (\<lambda>_. False),
      whatsapp_throws = (\<lambda>_. True), call_throws = False\<rparr>"

text \<open>Rider 1 has created alert 100 over HTTP at time 0.\<close>

definition demo_created :: world where
  "demo_created = snd (snd (post_alert demo_env all_fail [] 1 demo_request 0 demo_world))"

text \<open>Rider 2 has then responded to alert 100 over HTTP, one minute later.\<close>

definition demo_responded :: world where
  "demo_responded = snd (post_respond 100 2 None None 60000 demo_created)"

section \<open>Facts about the collection\<close>

lemma findById_mem: "findById i ds = Some d \<Longrightarrow> d \<in> set ds \<and> a_id d = i"
  unfolding findById_def by (induction ds) (auto split: if_splits)

lemma findById_update_alert:
  assumes "\<And>d. a_id (f d) = a_id d"
  shows "findById i (update_alert i f ds) = map_option f (findById i ds)"
  unfolding findById_def using assms by (induction ds) auto

lemma update_alert_absent: "findById i ds = None \<Longrightarrow> update_alert i f ds = ds"
  unfolding findById_def by (induction ds) (auto split: if_splits)

lemma list_all_update_alert:
  assumes "list_all P ds" and "\<And>d. findById i ds = Some d \<Longrightarrow> P (f d)"
  shows "list_all P (update_alert i f ds)"
  using assms unfolding findById_def by (induction ds) (auto split: if_splits)

lemma a_id_add_responder: "a_id (add_responder r now d) = a_id d"
  by (simp add: add_responder_def)

section \<open>Responding to an alert that is no longer active\<close>

lemma respond_not_active_http:
  assumes "findById aid (db_alerts w) = Some d" "a_status d \<noteq> Active"
  shows "post_respond aid uid m e now w = (Inl AlertNotActive, w)"
  using assms by (simp add: post_respond_def respond_read_http_def)

lemma respond_not_active_socket:
  assumes "findById aid (db_alerts w) = Some d" "a_status d \<noteq> Active"
  shows "on_emergency_response sid uid aid m e now w
           = ([(sid, ErrorEvent SocketNotFoundOrNotActive)], w)"
  using assms by (simp add: on_emergency_response_def respond_read_socket_def)




section \<open>Duplicate suppression on the two create paths\<close>

lemma post_alert_rejects_duplicate:
  assumes "q_location req = Some loc" "truthy_str (q_type req)"
    "truthy_num (latitude loc)" "truthy_num (longitude loc)"
    "recentAlert uid now (db_alerts w) = Some d"
  shows "post_alert e oc hs uid req now w = (Inl DuplicateActiveAlert, [], w)"
  using assms by (simp add: post_alert_def)

text \<open>
  C1 at the failing input. Rider 1 holds alert 100, active and one minute old. A second
  \<open>POST /alert\<close> is refused with DuplicateActiveAlert, but the same request over the
  socket is stored as alert 101 and acknowledged with \<open>emergency-alert-sent\<close>: rider 1
  then holds two active alerts created within the five-minute window.
\<close>

theorem socket_create_skips_duplicate_check:
  "recentAlert 1 60000 (db_alerts demo_created) \<noteq> None
   \<and> fst (post_alert demo_env all_fail [] 1 demo_request 60000 demo_created)
       = Inl DuplicateActiveAlert
   \<and> fst (on_emergency_alert demo_dist ''s1'' 1 demo_request 60000 demo_created)
       = [(''s2'', EmergencyAlertPush 101 1), (''s1'', EmergencyAlertSent 101 3)]
   \<and> map a_id
        (filter (\<lambda>d. a_user d = 1 \<and> a_status d = Active \<and> 60000 - 5 * 60 * 1000 \<le> a_createdAt d)
           (db_alerts (snd (on_emergency_alert demo_dist ''s1'' 1 demo_request 60000 demo_created))))
       = [100, 101]"
  by code_simp

section \<open>The nearby-users query\<close>

lemma near_query_sorted:
  "sorted (map (\<lambda>u. g c (coordinates (u_currentLocation u))) (near_query g c r us))"
  by (simp add: near_query_def)

lemma near_query_within:
  "u \<in> set (near_query g c r us) \<Longrightarrow> g c (coordinates (u_currentLocation u)) \<le> r"
  by (simp add: near_query_def)

lemma near_query_subset: "set (near_query g c r us) \<subseteq> set us"
  by (auto simp: near_query_def)

lemma near_query_length:
  "length (near_query g c r us)
     = length (filter (\<lambda>u. g c (coordinates (u_currentLocation u)) \<le> r) us)"
  by (simp add: near_query_def)

lemma near_query_distinct:
  assumes "distinct (map u_id us)"
  shows "distinct (map u_id (near_query g c r us))"
proof -
  let ?fs = "filter (\<lambda>u. g c (coordinates (u_currentLocation u)) \<le> r) us"
  have "distinct (map u_id ?fs)" using assms by (rule distinct_map_filter)
  then show ?thesis by (simp add: near_query_def distinct_map)
qed

lemma findNearby_distinct:
  "distinct (map u_id us) \<Longrightarrow> distinct (map u_id (findNearby g lon lat r incl us))"
  by (simp add: findNearby_def near_query_distinct distinct_map_filter)

section \<open>The socket create handler: fan-out and acknowledgement\<close>

lemma push_targets_notify_nearby:
  "push_targets aid' (notify_nearby conn aid sender us)
     = (if aid' = aid
        then map (\<lambda>u. the (conn (u_id u)))
               (filter (\<lambda>u. conn (u_id u) \<noteq> None \<and> u_id u \<noteq> sender) us)
        else [])"
  by (induction us) (auto simp: push_targets_def split: option.splits)

lemma length_notify_nearby:
  "length (notify_nearby conn aid sender us)
     = length (filter (\<lambda>u. conn (u_id u) \<noteq> None \<and> u_id u \<noteq> sender) us)"
  by (induction us) (auto split: option.splits)

lemma push_targets_snoc_ack:
  "push_targets aid (ems @ [(sid, EmergencyAlertSent i n)]) = push_targets aid ems"
  by (simp add: push_targets_def)

lemma a_id_save_new_alert:
  "save_new_alert i uid t sev loc descr hs now = Some a \<Longrightarrow> a_id a = i"
  by (auto simp: save_new_alert_def split: option.splits if_splits)

lemma on_emergency_alert_saved:
  assumes "q_location req = Some loc"
    and "save_new_alert (next_oid w) uid (q_type req) (q_severity req) loc (q_description req)
           [] now = Some a"
  shows "fst (on_emergency_alert g sid uid req now w)
     = notify_nearby (connectedUsers w) (next_oid w) uid
         (findNearby g (fst (coordinates (a_location a))) (snd (coordinates (a_location a)))
            10000 False (db_users w))
       @ [(sid, EmergencyAlertSent (next_oid w)
            (length (findNearby g (fst (coordinates (a_location a)))
               (snd (coordinates (a_location a))) 10000 False (db_users w))))]"
  using assms a_id_save_new_alert [OF assms(2)]
  by (simp add: on_emergency_alert_def Let_def)

lemma on_emergency_alert_failed:
  assumes "q_location req = None
     \<or> (\<exists>loc. q_location req = Some loc
          \<and> save_new_alert (next_oid w) uid (q_type req) (q_severity req) loc
               (q_description req) [] now = None)"
  shows "on_emergency_alert g sid uid req now w = ([(sid, ErrorEvent SocketFailed)], w)"
  using assms by (auto simp: on_emergency_alert_def)

text \<open>
  C10. When the socket handler stores the alert, what it emits is the pushes of the
  fan-out loop followed by \<open>emergency-alert-sent\<close> to the reporter, whose \<open>notifiedUsers\<close>
  is the length of the whole query result: every stored user that is marked online and
  within 10 km of the alert, the reporter and users without a connection included. The
  pushes are one for each of these that has a connection and is not the reporter, so
  there are at most, and possibly fewer than, \<open>notifiedUsers\<close> of them. In the scene the
  acknowledgement reports three users and one push is emitted.
\<close>

theorem ack_counts_whole_query:
  assumes "q_location req = Some loc"
    and "save_new_alert (next_oid w) uid (q_type req) (q_severity req) loc (q_description req)
           [] now = Some a"
    and "nearbyUsers = findNearby geoDist (fst (coordinates (a_location a)))
           (snd (coordinates (a_location a))) 10000 False (db_users w)"
  shows "fst (on_emergency_alert geoDist sid uid req now w)
           = notify_nearby (connectedUsers w) (a_id a) uid nearbyUsers
             @ [(sid, EmergencyAlertSent (a_id a) (length nearbyUsers))]
       \<and> length nearbyUsers
           = length (filter (\<lambda>u. u_isOnline u
                \<and> geoDist (coordinates (a_location a)) (coordinates (u_currentLocation u)) \<le> 10000)
               (db_users w))
       \<and> length (notify_nearby (connectedUsers w) (a_id a) uid nearbyUsers)
           = length (filter (\<lambda>u. connectedUsers w (u_id u) \<noteq> None \<and> u_id u \<noteq> uid) nearbyUsers)
       \<and> length (notify_nearby (connectedUsers w) (a_id a) uid nearbyUsers) \<le> length nearbyUsers"
proof -
  have a: "fst (on_emergency_alert geoDist sid uid req now w)
           = notify_nearby (connectedUsers w) (a_id a) uid nearbyUsers
             @ [(sid, EmergencyAlertSent (a_id a) (length nearbyUsers))]"
    using on_emergency_alert_saved [OF assms(1,2)] a_id_save_new_alert [OF assms(2)] assms(3)
    by simp
  have b: "length nearbyUsers
           = length (filter (\<lambda>u. u_isOnline u
                \<and> geoDist (coordinates (a_location a)) (coordinates (u_currentLocation u)) \<le> 10000)
               (db_users w))"
    by (simp add: assms(3) findNearby_def near_query_length conj_commute)
  have c: "length (notify_nearby (connectedUsers w) (a_id a) uid nearbyUsers)
           = length (filter (\<lambda>u. connectedUsers w (u_id u) \<noteq> None \<and> u_id u \<noteq> uid) nearbyUsers)"
    by (rule length_notify_nearby)
  have d: "length (notify_nearby (connectedUsers w) (a_id a) uid nearbyUsers) \<le> length nearbyUsers"
    unfolding c by (rule length_filter_le)
  show ?thesis by (intro conjI a b c d)
qed

theorem ack_counts_whole_query_witness:
  "q_location demo_request
     = Some \<lparr>latitude = Some (1297 / 100), longitude = Some (7759 / 100), loc_address = None\<rparr>
   \<and> map_option a_id
        (save_new_alert (next_oid demo_world) 1 (q_type demo_request) (q_severity demo_request)
           \<lparr>latitude = Some (1297 / 100), longitude = Some (7759 / 100), loc_address = None\<rparr>
           (q_description demo_request) [] 0) = Some 100
   \<and> map u_id (findNearby demo_dist (7759 / 100) (1297 / 100) 10000 False (db_users demo_world))
       = [1, 2, 3]
   \<and> fst (on_emergency_alert demo_dist ''s1'' 1 demo_request 0 demo_world)
       = [(''s2'', EmergencyAlertPush 100 1), (''s1'', EmergencyAlertSent 100 3)]"
proof -
  define loc where
    "loc = \<lparr>latitude = Some (1297 / 100), longitude = Some (7759 / 100), loc_address = None\<rparr>"
  define a where
    "a = the (save_new_alert (next_oid demo_world) 1 (q_type demo_request)
               (q_severity demo_request) loc (q_description demo_request) [] 0)"
  have h1: "q_location demo_request = Some loc"
    unfolding loc_def by code_simp
  have "save_new_alert (next_oid demo_world) 1 (q_type demo_request)
               (q_severity demo_request) loc (q_description demo_request) [] 0 \<noteq> None"
    unfolding loc_def by code_simp
  then have h2: "save_new_alert (next_oid demo_world) 1 (q_type demo_request)
               (q_severity demo_request) loc (q_description demo_request) [] 0 = Some a"
    by (auto simp: a_def)
  have i: "map_option a_id (save_new_alert (next_oid demo_world) 1 (q_type demo_request)
               (q_severity demo_request) loc (q_description demo_request) [] 0) = Some 100"
    unfolding loc_def by code_simp
  have n: "map u_id (findNearby demo_dist (7759 / 100) (1297 / 100) 10000 False (db_users demo_world))
       = [1, 2, 3]"
    by code_simp
  have e: "fst (on_emergency_alert demo_dist ''s1'' 1 demo_request 0 demo_world)
       = [(''s2'', EmergencyAlertPush 100 1), (''s1'', EmergencyAlertSent 100 3)]"
    by code_simp
  let ?nb = "findNearby demo_dist (fst (coordinates (a_location a)))
              (snd (coordinates (a_location a))) 10000 False (db_users demo_world)"
  from ack_counts_whole_query [OF h1 h2 refl, of demo_dist "''s1''"]
  have "length (notify_nearby (connectedUsers demo_world) (a_id a) 1 ?nb) \<le> length ?nb"
    by blast
  then show ?thesis using h1 i n e unfolding loc_def by simp
qed


lemma distinct_targets:
  assumes "distinct (map u_id us)" "inj_on conn (dom conn)"
  shows "distinct (map (\<lambda>u. the (conn (u_id u)))
                     (filter (\<lambda>u. conn (u_id u) \<noteq> None \<and> u_id u \<noteq> sender) us))"
proof -
  let ?fs = "filter (\<lambda>u. conn (u_id u) \<noteq> None \<and> u_id u \<noteq> sender) us"
  have d: "distinct (map u_id ?fs)" using assms(1) by (rule distinct_map_filter)
  have inj: "inj_on (\<lambda>i. the (conn i)) (set (map u_id ?fs))"
  proof (rule inj_onI)
    fix i j
    assume "i \<in> set (map u_id ?fs)" "j \<in> set (map u_id ?fs)" "the (conn i) = the (conn j)"
    then have "i \<in> dom conn" "j \<in> dom conn" "conn i = conn j" by auto
    with assms(2) show "i = j" by (auto dest: inj_onD)
  qed
  have "distinct (map (\<lambda>i. the (conn i)) (map u_id ?fs))"
    using d inj distinct_map [of "\<lambda>i. the (conn i)" "map u_id ?fs"] by blast
  then show ?thesis by (simp add: comp_def)
qed

section \<open>Manual resolution and the timer\<close>

lemma put_resolve_refused:
  assumes "findById aid (db_alerts w) = Some d"
  shows "put_resolve aid uid now w = (Inl NotAuthorizedToResolve, w)"
  using assms
  by (simp add: put_resolve_def canResolve_def string_eq_req_user_id_def list_ex_iff)

lemma put_resolve_unchanged: "snd (put_resolve aid uid now w) = w"
proof (cases "findById aid (db_alerts w)")
  case None
  then show ?thesis by (simp add: put_resolve_def)
next
  case (Some d)
  then show ?thesis by (simp add: put_resolve_refused)
qed

lemma autoResolve_callback_guard:
  "a_status this \<noteq> Active \<Longrightarrow> autoResolve_callback this now w = w"
  by (simp add: autoResolve_callback_def)

lemma autoResolve_callback_writes:
  assumes "a_status this = Active" "findById (a_id this) (db_alerts w) = Some d"
  shows "findById (a_id this) (db_alerts (autoResolve_callback this now w))
           = Some (d\<lparr>a_status := Resolved, a_autoResolved := True,
                      a_resolvedAt := Some now, a_updatedAt := now\<rparr>)"
  using assms by (simp add: autoResolve_callback_def findById_update_alert)


section \<open>The requester in the nearby-users answer\<close>

lemma nearby_users_answer:
  assumes "parse_radius radius = Num r" and "geo_query_ok lon lat r"
  shows "get_nearby_users geoDist uid (Num lon) (Num lat) radius incl w
           = Inr (findNearby geoDist lon lat r incl (db_users w))"
  using assms by (simp add: get_nearby_users_def string_eq_req_user_id_def)

lemma nearby_users_within_sorted:
  assumes "parse_radius radius = Num r" and "geo_query_ok lon lat r"
  shows "\<exists>us. get_nearby_users geoDist uid (Num lon) (Num lat) radius incl w = Inr us
       \<and> set us \<subseteq> set (db_users w)
       \<and> list_all (\<lambda>u. geoDist (lon, lat) (coordinates (u_currentLocation u)) \<le> r) us
       \<and> sorted (map (\<lambda>u. geoDist (lon, lat) (coordinates (u_currentLocation u))) us)"
proof -
  define us where "us = findNearby geoDist lon lat r incl (db_users w)"
  have res: "get_nearby_users geoDist uid (Num lon) (Num lat) radius incl w = Inr us"
    using nearby_users_answer [OF assms] by (simp add: us_def)
  have "set us \<subseteq> set (db_users w)"
    using near_query_subset by (fastforce simp: us_def findNearby_def split: if_splits)
  moreover have "list_all (\<lambda>u. geoDist (lon, lat) (coordinates (u_currentLocation u)) \<le> r) us"
    by (auto simp: us_def findNearby_def list_all_iff dest: near_query_within)
  moreover have "sorted (map (\<lambda>u. geoDist (lon, lat) (coordinates (u_currentLocation u))) us)"
    unfolding us_def findNearby_def by (rule near_query_sorted)
  ultimately show ?thesis using res by blast
qed

text \<open>
  C8 at the failing input. Rider 1 asks for the users within 10 km of the rider's own
  stored position. The filter under the comment "Filter out current user" compares a
  string with the ObjectId \<open>req.user.id\<close> and removes nobody: the answer lists rider 1
  first, at distance 0 (the radius and the order are as the query gives them).
\<close>

theorem nearby_users_returns_requester:
  "map u_id (filter u_isOnline (db_users demo_world)) = [4, 3, 1, 2]
   \<and> map_sum id (map u_id)
        (get_nearby_users demo_dist 1 (Num (7759 / 100)) (Num (1297 / 100)) (Num 10000) False
           demo_world)
       = Inr [1, 2, 3]"
  by code_simp

section \<open>Creation does not depend on the notification path\<close>

lemma notifyContacts_never_throws: "\<exists>es. notifyContacts e oc us a = Inr es"
  by (simp add: notifyContacts_def split: sum.splits)

lemma notify_lookup_logged:
  "findUser_throws oc \<Longrightarrow> notifyContacts e oc us a = Inr [Logged ''notifyContacts error'']"
  by (simp add: notifyContacts_def notifyContacts_try_def)

lemma notify_init_logged:
  assumes "\<not> findUser_throws oc" "twilio_configured e" "twilio_init_throws oc"
  shows "\<exists>es. notifyContacts e oc us a = Inr es \<and> Logged ''Twilio module not available'' \<in> set es"
  using assms by (simp add: notifyContacts_def notifyContacts_try_def twilio_branch_def Let_def)

lemma send_to_contacts_logged:
  "to \<in> set cs \<Longrightarrow> sms_throws oc to
     \<Longrightarrow> Logged (''Twilio SMS error for '' @ to) \<in> set (send_to_contacts oc wa cs)"
  by (induction cs) auto

lemma notify_sms_logged:
  assumes "\<not> findUser_throws oc" "twilio_configured e" "\<not> twilio_init_throws oc"
    and "to \<in> set (contact_phones (findUserById (a_user a) us))" "sms_throws oc to"
  shows "\<exists>es. notifyContacts e oc us a = Inr es \<and> Logged (''Twilio SMS error for '' @ to) \<in> set es"
  using assms send_to_contacts_logged [OF assms(4,5)]
  by (simp add: notifyContacts_def notifyContacts_try_def twilio_branch_def Let_def)

lemma notify_call_logged:
  assumes "\<not> findUser_throws oc" "twilio_configured e" "\<not> twilio_init_throws oc"
    and "serviceNumber e (a_type a) \<noteq> []" "call_throws oc"
  shows "\<exists>es. notifyContacts e oc us a = Inr es
           \<and> Logged (''Twilio call error to service number '' @ serviceNumber e (a_type a)) \<in> set es"
  using assms
  by (simp add: notifyContacts_def notifyContacts_try_def twilio_branch_def Let_def)

lemma save_new_alert_accepts:
  assumes "t \<in> set alert_types" "sev \<in> set severities"
    and "case descr of None \<Rightarrow> True | Some x \<Rightarrow> length x \<le> 500"
    and "latitude loc = Some lat" "longitude loc = Some lon"
    and "- 180 \<le> lon" "lon \<le> 180" "- 90 \<le> lat" "lat \<le> 90"
  shows "\<exists>a. save_new_alert i uid (Some t) (Some sev) loc descr hs now = Some a
           \<and> a_id a = i \<and> a_user a = uid \<and> a_type a = t \<and> a_status a = Active"
proof -
  from assms(1) have "t \<noteq> []" by (auto simp: alert_types_def)
  with assms show ?thesis by (simp add: save_new_alert_def)
qed

text \<open>
  C9, as the code has it. A \<open>POST /alert\<close> that passes the handler's validation (type
  and non-zero coordinates present), the duplicate check, and the schema's validation on
  save (type and severity in their enums, description of at most 500 characters, a
  point within range) is answered with the created alert, which is stored, active and
  scheduled for auto-resolve, whatever the outcomes \<open>oc\<close> of the notification calls are:
  for any other outcomes \<open>oc'\<close> the reply and the resulting world are the same. Of the
  errors that the notification path can meet, a failed user lookup, a failed start of
  the gateway, a failed SMS and a failed service call each leave their console line in
  the effects.
\<close>

theorem create_succeeds_whatever_notification_does:
  assumes "q_location req = Some loc" and "q_type req = Some t" and "t \<in> set alert_types"
    and "latitude loc = Some lat" and "lat \<noteq> 0" and "longitude loc = Some lon" and "lon \<noteq> 0"
    and "recentAlert uid now (db_alerts w) = None"
    and "or_str (q_severity req) ''medium'' \<in> set severities"
    and "case q_description req of None \<Rightarrow> True | Some x \<Rightarrow> length x \<le> 500"
    and "- 180 \<le> lon" and "lon \<le> 180" and "- 90 \<le> lat" and "lat \<le> 90"
  shows "\<exists>a es. post_alert e oc hs uid req now w
             = (Inr a, es,
                scheduleAutoResolve a
                  (w\<lparr>db_alerts := db_alerts w @ [a], next_oid := Suc (next_oid w)\<rparr>))
           \<and> a_id a = next_oid w \<and> a_user a = uid \<and> a_type a = t \<and> a_status a = Active
           \<and> fst (post_alert e oc' hs uid req now w) = Inr a
           \<and> snd (snd (post_alert e oc' hs uid req now w))
               = snd (snd (post_alert e oc hs uid req now w))
           \<and> (findUser_throws oc \<longrightarrow> es = [Logged ''notifyContacts error''])
           \<and> (\<not> findUser_throws oc \<and> twilio_configured e \<and> twilio_init_throws oc
                \<longrightarrow> Logged ''Twilio module not available'' \<in> set es)
           \<and> (\<not> findUser_throws oc \<and> twilio_configured e \<and> \<not> twilio_init_throws oc
                \<and> to \<in> set (contact_phones (findUserById uid (db_users w))) \<and> sms_throws oc to
                \<longrightarrow> Logged (''Twilio SMS error for '' @ to) \<in> set es)
           \<and> (\<not> findUser_throws oc \<and> twilio_configured e \<and> \<not> twilio_init_throws oc
                \<and> serviceNumber e t \<noteq> [] \<and> call_throws oc
                \<longrightarrow> Logged (''Twilio call error to service number '' @ serviceNumber e t) \<in> set es)"
proof -
  let ?hs = "if q_type req = Some ''medical'' \<or> q_type req = Some ''accident'' then hs else []"
  from assms(2,3) have tt: "truthy_str (q_type req)"
    by (auto simp: truthy_str_def alert_types_def)
  from assms(4-7) have tn: "truthy_num (latitude loc)" "truthy_num (longitude loc)"
    by (simp_all add: truthy_num_def)
  from save_new_alert_accepts [OF assms(3,9,10,4,6,11-14), of "next_oid w" uid ?hs now]
  obtain a where a: "save_new_alert (next_oid w) uid (Some t)
        (Some (or_str (q_severity req) ''medium'')) loc (q_description req) ?hs now = Some a"
    "a_id a = next_oid w" "a_user a = uid" "a_type a = t" "a_status a = Active"
    by blast
  let ?w' = "scheduleAutoResolve a (w\<lparr>db_alerts := db_alerts w @ [a], next_oid := Suc (next_oid w)\<rparr>)"
  have us: "db_users ?w' = db_users w" by (simp add: scheduleAutoResolve_def)
  have res: "\<exists>es. notifyContacts e x (db_users w) a = Inr es
                  \<and> post_alert e x hs uid req now w = (Inr a, es, ?w')" for x
  proof -
    from notifyContacts_never_throws [of e x "db_users w" a]
    obtain es where "notifyContacts e x (db_users w) a = Inr es" by blast
    then show ?thesis
      using assms(1,2,8) tt tn a(1)
      by (simp add: post_alert_def Let_def scheduleAutoResolve_def)
  qed
  from res [of oc] obtain es where es: "notifyContacts e oc (db_users w) a = Inr es"
    "post_alert e oc hs uid req now w = (Inr a, es, ?w')" by blast
  have l1: "findUser_throws oc \<longrightarrow> es = [Logged ''notifyContacts error'']"
    using es(1) notify_lookup_logged [of oc e "db_users w" a] by auto
  have l2: "\<not> findUser_throws oc \<and> twilio_configured e \<and> twilio_init_throws oc
                \<longrightarrow> Logged ''Twilio module not available'' \<in> set es"
    using es(1) notify_init_logged [of oc e "db_users w" a] by auto
  have l3: "\<not> findUser_throws oc \<and> twilio_configured e \<and> \<not> twilio_init_throws oc
                \<and> to \<in> set (contact_phones (findUserById uid (db_users w))) \<and> sms_throws oc to
                \<longrightarrow> Logged (''Twilio SMS error for '' @ to) \<in> set es"
    using es(1) notify_sms_logged [of oc e to a "db_users w"] a(3) by auto
  have l4: "\<not> findUser_throws oc \<and> twilio_configured e \<and> \<not> twilio_init_throws oc
                \<and> serviceNumber e t \<noteq> [] \<and> call_throws oc
                \<longrightarrow> Logged (''Twilio call error to service number '' @ serviceNumber e t) \<in> set es"
    using es(1) notify_call_logged [of oc e a "db_users w"] a(4) by auto
  from res [of oc'] es(2) have ind: "fst (post_alert e oc' hs uid req now w) = Inr a"
    "snd (snd (post_alert e oc' hs uid req now w)) = snd (snd (post_alert e oc hs uid req now w))"
    by auto
  show ?thesis
    using es(2) a(2-5) ind l1 l2 l3 l4 by blast
qed

theorem create_succeeds_whatever_notification_does_witness:
  "q_location demo_request
     = Some \<lparr>latitude = Some (1297 / 100), longitude = Some (7759 / 100), loc_address = None\<rparr>
   \<and> q_type demo_request = Some ''medical''
   \<and> recentAlert 1 0 (db_alerts demo_world) = None
   \<and> findUser_throws all_fail
   \<and> map_sum id a_id (fst (post_alert demo_env all_fail [] 1 demo_request 0 demo_world)) = Inr 100
   \<and> fst (snd (post_alert demo_env all_fail [] 1 demo_request 0 demo_world))
       = [Logged ''notifyContacts error'']
   \<and> map a_id (db_alerts (snd (snd (post_alert demo_env all_fail [] 1 demo_request 0 demo_world))))
       = [100]"
proof -
  define loc where
    "loc = \<lparr>latitude = Some (1297 / 100), longitude = Some (7759 / 100), loc_address = None\<rparr>"
  have h1: "q_location demo_request = Some loc" unfolding loc_def by code_simp
  have h2: "q_type demo_request = Some ''medical''" by code_simp
  have h3: "''medical'' \<in> set alert_types" by code_simp
  have h4: "latitude loc = Some (1297 / 100)" "longitude loc = Some (7759 / 100)"
    by (simp_all add: loc_def)
  have h5: "recentAlert 1 0 (db_alerts demo_world) = None" by code_simp
  have h6: "or_str (q_severity demo_request) ''medium'' \<in> set severities" by code_simp
  have h7: "case q_description demo_request of None \<Rightarrow> True | Some x \<Rightarrow> length x \<le> 500"
    by code_simp
  have h8: "findUser_throws all_fail" by code_simp
  have r1: "map_sum id a_id (fst (post_alert demo_env all_fail [] 1 demo_request 0 demo_world))
      = Inr 100" by code_simp
  have r3: "map a_id (db_alerts (snd (snd (post_alert demo_env all_fail [] 1 demo_request 0 demo_world))))
       = [100]" by code_simp
  from create_succeeds_whatever_notification_does
         [OF h1 h2 h3 h4(1) _ h4(2) _ h5 h6 h7, of demo_env all_fail "[]" all_fail]
       h8
  have r2: "fst (snd (post_alert demo_env all_fail [] 1 demo_request 0 demo_world))
       = [Logged ''notifyContacts error'']"
    by auto
  with h1 h2 h5 h8 r1 r3 show ?thesis unfolding loc_def by blast
qed

text \<open>
  C9 as stated fails on "and logged": with a WhatsApp sender configured and the WhatsApp
  send to the reporter's contact throwing, the alert is created and the effects hold the
  SMS and the service call only; the \<open>catch\<close> of the WhatsApp send ("not fatal") writes
  no line.
\<close>

theorem whatsapp_failure_not_logged_counterexample:
  "contact_phones (findUserById 1 (db_users demo_world)) = [''+911234500001'']
   \<and> whatsapp_throws whatsapp_fails ''+911234500001''
   \<and> map_sum id a_id
        (fst (post_alert demo_env_whatsapp whatsapp_fails [] 1 demo_request 0 demo_world)) = Inr 100
   \<and> fst (snd (post_alert demo_env_whatsapp whatsapp_fails [] 1 demo_request 0 demo_world))
       = [SentSMS ''+911234500001'', PlacedCall ''108'']"
  by code_simp

section \<open>Reads and saves of a respond\<close>

lemma to_save_active:
  assumes "a_status d = Active" "rw_user g = uid" "r_user r = uid"
  shows "p_alertId (to_save d r now g) = a_id d \<and> p_status (to_save d r now g) = Some Responded
       \<and> r_user (p_responder (to_save d r now g)) = uid \<and> p_reward (to_save d r now g) = g"
  using assms by (simp add: to_save_def add_responder_def)

lemma respond_read_http_pending:
  assumes "respond_read_http aid uid m e now w = Inr p"
  shows "p_alertId p = aid \<and> p_status p = Some Responded \<and> r_user (p_responder p) = uid
       \<and> rw_user (p_reward p) = uid \<and> rw_points (p_reward p) = 50
       \<and> rw_relatedActivity (p_reward p) = aid
       \<and> rw_activityType (p_reward p) = ''emergency_response''"
  using assms
  by (auto simp: respond_read_http_def to_save_def add_responder_def response_reward_def
           dest: findById_mem split: option.splits if_splits)

lemma respond_read_socket_pending:
  assumes "respond_read_socket uid aid m e now w = Inr p"
  shows "p_alertId p = aid \<and> p_status p = Some Responded \<and> r_user (p_responder p) = uid
       \<and> rw_user (p_reward p) = uid \<and> rw_points (p_reward p) = 50
       \<and> rw_relatedActivity (p_reward p) = aid
       \<and> rw_activityType (p_reward p) = ''emergency_response''"
  using assms
  by (auto simp: respond_read_socket_def to_save_def add_responder_def response_reward_def
           dest: findById_mem split: option.splits if_splits)

lemma respond_read_socket_active:
  assumes "findById aid (db_alerts w) = Some d" "a_status d = Active"
  shows "\<exists>p. respond_read_socket uid aid m e now w = Inr p"
  using assms by (simp add: respond_read_socket_def)

lemma grants_respond_save:
  assumes "rw_relatedActivity (p_reward p) = aid"
    "rw_activityType (p_reward p) = ''emergency_response''"
  shows "grants aid (respond_save p now w) = grants aid w @ [p_reward p]"
  using assms by (simp add: grants_def respond_save_def)

lemma status_respond_save:
  assumes "findById (p_alertId p) (db_alerts w) = Some d" "p_status p = Some st"
  shows "map_option a_status (findById (p_alertId p) (db_alerts (respond_save p now w))) = Some st"
  using assms by (simp add: respond_save_def findById_update_alert)

lemma users_respond_save:
  "db_users (respond_save p now w) = inc_stats (r_user (p_responder p)) (db_users w)"
  by (simp add: respond_save_def)

section \<open>The first response\<close>

lemma run_respond_closed:
  assumes "map_option a_status (findById aid (db_alerts w)) \<noteq> Some Active"
  shows "run_respond aid c w = (False, w)"
proof (cases "findById aid (db_alerts w)")
  case None
  then show ?thesis
    by (cases c)
       (simp_all add: post_respond_def on_emergency_response_def respond_read_http_def
          respond_read_socket_def)
next
  case (Some d)
  with assms have "a_status d \<noteq> Active" by simp
  with Some show ?thesis
    by (cases c) (simp_all add: respond_not_active_http respond_not_active_socket)
qed

lemma run_responds_closed:
  assumes "map_option a_status (findById aid (db_alerts w)) \<noteq> Some Active"
  shows "run_responds aid cs w = (replicate (length cs) False, w)"
  using assms by (induction cs) (simp_all add: run_respond_closed)

lemma run_respond_saved:
  assumes "findById aid (db_alerts w) = Some d"
    and "p_alertId p = aid \<and> p_status p = Some Responded \<and> r_user (p_responder p) = uid
       \<and> rw_user (p_reward p) = uid \<and> rw_points (p_reward p) = 50
       \<and> rw_relatedActivity (p_reward p) = aid
       \<and> rw_activityType (p_reward p) = ''emergency_response''"
  shows "map_option a_status (findById aid (db_alerts (respond_save p now w))) = Some Responded
       \<and> (\<exists>g. grants aid (respond_save p now w) = grants aid w @ [g]
              \<and> rw_user g = uid \<and> rw_points g = 50)
       \<and> db_users (respond_save p now w) = inc_stats uid (db_users w)"
  using assms status_respond_save [of p w d Responded now] grants_respond_save [of p aid now w]
  by (simp add: users_respond_save)

lemma run_respond_open:
  assumes "findById aid (db_alerts w) = Some d" "a_status d = Active"
    and "run_respond aid c w = (ok, w1)"
  shows "(\<not> ok \<and> w1 = w)
       \<or> (ok \<and> map_option a_status (findById aid (db_alerts w1)) = Some Responded
            \<and> (\<exists>g. grants aid w1 = grants aid w @ [g] \<and> rw_user g = caller c \<and> rw_points g = 50)
            \<and> db_users w1 = inc_stats (caller c) (db_users w))"
proof (cases c)
  case (ViaHttp uid m e t)
  show ?thesis
  proof (cases "respond_read_http aid uid m e t w")
    case (Inl err)
    with assms(3) ViaHttp show ?thesis by (simp add: post_respond_def)
  next
    case (Inr p)
    with assms(3) ViaHttp have "ok" "w1 = respond_save p t w"
      by (simp_all add: post_respond_def)
    with run_respond_saved [OF assms(1) respond_read_http_pending [OF Inr], of t] ViaHttp
    show ?thesis by simp
  qed
next
  case (ViaSocket sid uid m e t)
  from respond_read_socket_active [OF assms(1,2)]
  obtain p where p: "respond_read_socket uid aid m e t w = Inr p" by blast
  with assms(3) ViaSocket have "ok" "w1 = respond_save p t w"
    using respond_read_socket_pending [OF p]
    by (auto simp: on_emergency_response_def respond_finish_socket_def)
  with run_respond_saved [OF assms(1) respond_read_socket_pending [OF p], of t] ViaSocket
  show ?thesis by simp
qed

text \<open>
  C4, as the code has it. Take an alert that is active and any sequence of respond calls
  aimed at it, over either entry point and by any users, that do not overlap (each is
  read and saved before the next is read). Either no call succeeds and the world is
  untouched, or exactly one call succeeds: the first one that passes the handler's
  checks. Every call before it and every call after it fails; the status is then
  \<open>responded\<close>; the \<open>emergency_response\<close> rewards of the alert have grown by exactly one
  grant, of 50 points, for the caller of that call; and that caller's counters are the
  only ones incremented.
\<close>

theorem first_respond_single_grant:
  assumes "findById aid (db_alerts w) = Some d" and "a_status d = Active"
    and "run_responds aid calls w = (oks, w')"
  shows "(oks = replicate (length calls) False \<and> w' = w)
       \<or> (\<exists>pre c post. calls = pre @ c # post
            \<and> oks = replicate (length pre) False @ True # replicate (length post) False
            \<and> map_option a_status (findById aid (db_alerts w')) = Some Responded
            \<and> (\<exists>g. grants aid w' = grants aid w @ [g] \<and> rw_user g = caller c \<and> rw_points g = 50)
            \<and> db_users w' = inc_stats (caller c) (db_users w))"
  using assms(3)
proof (induction calls arbitrary: oks w')
  case Nil
  then show ?case by simp
next
  case (Cons c cs)
  obtain ok w1 where step1: "run_respond aid c w = (ok, w1)" by (cases "run_respond aid c w")
  obtain oks1 w2 where rest: "run_responds aid cs w1 = (oks1, w2)"
    by (cases "run_responds aid cs w1")
  from Cons.prems step1 rest have oks: "oks = ok # oks1" and w': "w' = w2" by simp_all
  from run_respond_open [OF assms(1,2) step1]
  consider (fail) "\<not> ok" "w1 = w"
    | (win) "ok" "map_option a_status (findById aid (db_alerts w1)) = Some Responded"
        "\<exists>g. grants aid w1 = grants aid w @ [g] \<and> rw_user g = caller c \<and> rw_points g = 50"
        "db_users w1 = inc_stats (caller c) (db_users w)"
    by blast
  then show ?case
  proof cases
    case fail
    with rest have "run_responds aid cs w = (oks1, w2)" by simp
    from Cons.IH [OF this]
    show ?thesis
    proof
      assume "oks1 = replicate (length cs) False \<and> w2 = w"
      with fail oks w' show ?thesis by simp
    next
      assume "\<exists>pre c' post. cs = pre @ c' # post
            \<and> oks1 = replicate (length pre) False @ True # replicate (length post) False
            \<and> map_option a_status (findById aid (db_alerts w2)) = Some Responded
            \<and> (\<exists>g. grants aid w2 = grants aid w @ [g] \<and> rw_user g = caller c' \<and> rw_points g = 50)
            \<and> db_users w2 = inc_stats (caller c') (db_users w)"
      then obtain pre c' post where
        a: "cs = pre @ c' # post"
        "oks1 = replicate (length pre) False @ True # replicate (length post) False"
        "map_option a_status (findById aid (db_alerts w2)) = Some Responded"
        "\<exists>g. grants aid w2 = grants aid w @ [g] \<and> rw_user g = caller c' \<and> rw_points g = 50"
        "db_users w2 = inc_stats (caller c') (db_users w)"
        by blast
      have "c # cs = (c # pre) @ c' # post" using a(1) by simp
      moreover have "oks = replicate (length (c # pre)) False @ True # replicate (length post) False"
        using a(2) oks fail by simp
      ultimately show ?thesis using a(3,4,5) w' by blast
    qed
  next
    case win
    have "map_option a_status (findById aid (db_alerts w1)) \<noteq> Some Active"
      using win(2) by auto
    from run_responds_closed [OF this, of cs] rest
    have "oks1 = replicate (length cs) False" "w2 = w1" by simp_all
    then have "c # cs = [] @ c # cs"
      and "oks = replicate (length ([]::respond_call list)) False @ True # replicate (length cs) False"
      and "map_option a_status (findById aid (db_alerts w')) = Some Responded"
      and "\<exists>g. grants aid w' = grants aid w @ [g] \<and> rw_user g = caller c \<and> rw_points g = 50"
      and "db_users w' = inc_stats (caller c) (db_users w)"
      using win oks w' by simp_all
    then show ?thesis by blast
  qed
qed

theorem first_respond_single_grant_witness:
  "findById 100 (db_alerts demo_created) = Some (hd (db_alerts demo_created))
   \<and> a_status (hd (db_alerts demo_created)) = Active
   \<and> fst (run_responds 100 [ViaSocket ''s2'' 2 None None 1000, ViaHttp 3 None None 2000,
                             ViaHttp 1 None None 3000] demo_created) = [True, False, False]
   \<and> map rw_user (grants 100 (snd (run_responds 100 [ViaSocket ''s2'' 2 None None 1000,
         ViaHttp 3 None None 2000, ViaHttp 1 None None 3000] demo_created))) = [2]"
proof -
  define calls where
    "calls = [ViaSocket ''s2'' 2 None None 1000, ViaHttp 3 None None 2000, ViaHttp 1 None None 3000]"
  define res where "res = run_responds 100 calls demo_created"
  have h1: "findById 100 (db_alerts demo_created) = Some (hd (db_alerts demo_created))"
    by code_simp
  have h2: "a_status (hd (db_alerts demo_created)) = Active"
    by code_simp
  have h3: "run_responds 100 calls demo_created = (fst res, snd res)"
    by (simp add: res_def)
  have oks: "fst res = [True, False, False]"
    unfolding res_def calls_def by code_simp
  have g0: "grants 100 demo_created = []"
    by code_simp
  from first_respond_single_grant [OF h1 h2 h3]
  have "\<exists>g. grants 100 (snd res) = [g] \<and> rw_points g = 50"
    using oks g0 by (auto simp: calls_def)
  moreover have "map rw_user (grants 100 (snd res)) = [2]"
    unfolding res_def calls_def by code_simp
  ultimately show ?thesis using h1 h2 oks unfolding res_def calls_def by simp
qed

text \<open>
  C4 as stated fails for calls that overlap. Riders 2 and 3 respond to the active alert
  100; both handlers read it before either save reaches the store. Both saves are then
  applied: two grants for alert 100 and two responders.
\<close>

theorem overlapping_responds_counterexample:
  "map a_status (db_alerts demo_created) = [Active]
   \<and> map rw_user
        (grants 100
           (run demo_dist
              [RespondHttpRead 100 2 None None 1000, RespondHttpRead 100 3 None None 1001,
               RespondSave 0 1002, RespondSave 0 1003] demo_created))
       = [2, 3]
   \<and> map (map r_user \<circ> a_responders)
        (db_alerts
           (run demo_dist
              [RespondHttpRead 100 2 None None 1000, RespondHttpRead 100 3 None None 1001,
               RespondSave 0 1002, RespondSave 0 1003] demo_created))
       = [[2, 3]]"
  by code_simp

section \<open>What every run keeps\<close>



lemma alert_inv_cong:
  assumes "next_oid w' = next_oid w" "timers w' = timers w"
  shows "alert_inv w' d = alert_inv w d"
  using assms by (simp add: alert_inv_def)

lemma fresh_world_inv: "fresh w \<Longrightarrow> world_inv w"
  by (simp add: fresh_def world_inv_def)

lemma world_inv_created:
  assumes "world_inv w" "a_id a = next_oid w" "a_status a = Active" "a_responders a = []"
  shows "world_inv (scheduleAutoResolve a
                      (w\<lparr>db_alerts := db_alerts w @ [a], next_oid := Suc (next_oid w)\<rparr>))"
proof -
  let ?w' = "scheduleAutoResolve a (w\<lparr>db_alerts := db_alerts w @ [a], next_oid := Suc (next_oid w)\<rparr>)"
  have "alert_inv ?w' d" if "d \<in> set (db_alerts w)" for d
  proof -
    from that assms(1) have "alert_inv w d" by (simp add: world_inv_def list_all_iff)
    then show ?thesis using assms(2)
      by (auto simp: alert_inv_def scheduleAutoResolve_def split: if_splits)
  qed
  moreover have "alert_inv ?w' a"
    using assms(2-4) by (simp add: alert_inv_def scheduleAutoResolve_def)
  ultimately show ?thesis using assms(1)
    by (simp add: world_inv_def list_all_iff scheduleAutoResolve_def)
qed

lemma save_new_alert_shape:
  "save_new_alert i uid t sev loc descr hs now = Some a
     \<Longrightarrow> a_id a = i \<and> a_status a = Active \<and> a_responders a = []"
  by (auto simp: save_new_alert_def split: option.splits if_splits)

lemma post_alert_world:
  "snd (snd (post_alert e oc hs uid req now w)) = w
   \<or> (\<exists>a. a_id a = next_oid w \<and> a_status a = Active \<and> a_responders a = []
         \<and> snd (snd (post_alert e oc hs uid req now w))
             = scheduleAutoResolve a
                 (w\<lparr>db_alerts := db_alerts w @ [a], next_oid := Suc (next_oid w)\<rparr>))"
  by (auto simp: post_alert_def Let_def split: option.splits dest: save_new_alert_shape)

lemma on_emergency_alert_world:
  "snd (on_emergency_alert g sid uid req now w) = w
   \<or> (\<exists>a. a_id a = next_oid w \<and> a_status a = Active \<and> a_responders a = []
         \<and> snd (on_emergency_alert g sid uid req now w)
             = scheduleAutoResolve a
                 (w\<lparr>db_alerts := db_alerts w @ [a], next_oid := Suc (next_oid w)\<rparr>))"
  by (auto simp: on_emergency_alert_def Let_def scheduleAutoResolve_def split: option.splits
           dest: save_new_alert_shape)

lemma world_inv_respond_save:
  assumes "world_inv w" "p_status p = Some Responded"
  shows "world_inv (respond_save p now w)"
proof -
  let ?f = "\<lambda>s. s\<lparr>a_responders := a_responders s @ [p_responder p],
                   a_status := (case p_status p of None \<Rightarrow> a_status s | Some st \<Rightarrow> st),
                   a_updatedAt := now\<rparr>"
  have c: "alert_inv (respond_save p now w) = alert_inv w"
    by (rule ext) (simp add: alert_inv_def respond_save_def)
  have "list_all (alert_inv w) (update_alert (p_alertId p) ?f (db_alerts w))"
  proof (rule list_all_update_alert)
    show "list_all (alert_inv w) (db_alerts w)" using assms(1) by (simp add: world_inv_def)
  next
    fix d assume "findById (p_alertId p) (db_alerts w) = Some d"
    then have "alert_inv w d" using assms(1) findById_mem
      by (auto simp: world_inv_def list_all_iff)
    then show "alert_inv w (?f d)" using assms(2) by (simp add: alert_inv_def)
  qed
  then show ?thesis using assms(1) c by (simp add: world_inv_def respond_save_def)
qed

lemma world_inv_inflight:
  assumes "world_inv w" "list_all (\<lambda>sp. p_status (snd sp) = Some Responded) fl"
  shows "world_inv (w\<lparr>inflight := fl\<rparr>)"
proof -
  have "alert_inv (w\<lparr>inflight := fl\<rparr>) = alert_inv w"
    by (rule ext) (simp add: alert_inv_def)
  then show ?thesis using assms by (simp add: world_inv_def)
qed

lemma world_inv_timer_fired:
  assumes "world_inv w"
  shows "world_inv (timer_fired i now w)"
proof (cases "find (\<lambda>d. a_id d = i) (timers w)")
  case None
  then show ?thesis using assms by (simp add: timer_fired_def)
next
  case (Some this)
  then have id: "a_id this = i" by (auto simp: find_Some_iff)
  let ?w1 = "w\<lparr>timers := filter (\<lambda>d. a_id d \<noteq> i) (timers w)\<rparr>"
  let ?f = "\<lambda>d. d\<lparr>a_status := Resolved, a_autoResolved := True,
                   a_resolvedAt := Some now, a_updatedAt := now\<rparr>"
  have old: "alert_inv ?w1 d" if "d \<in> set (db_alerts w)" for d
  proof -
    from that assms have "alert_inv w d" by (simp add: world_inv_def list_all_iff)
    then show ?thesis by (auto simp: alert_inv_def list_all_iff split: if_splits)
  qed
  have w1: "world_inv ?w1" using assms old by (simp add: world_inv_def list_all_iff)
  show ?thesis
  proof (cases "a_status this = Active")
    case False
    with Some w1 show ?thesis by (simp add: timer_fired_def autoResolve_callback_def)
  next
    case True
    let ?w2 = "?w1\<lparr>db_alerts := update_alert i ?f (db_alerts w)\<rparr>"
    have c: "alert_inv ?w2 = alert_inv ?w1" by (rule ext) (simp add: alert_inv_def)
    have "list_all (alert_inv ?w1) (update_alert i ?f (db_alerts w))"
    proof (rule list_all_update_alert)
      show "list_all (alert_inv ?w1) (db_alerts w)" using old by (simp add: list_all_iff)
    next
      fix d assume f: "findById i (db_alerts w) = Some d"
      then have "d \<in> set (db_alerts w)" "a_id d = i" using findById_mem by blast+
      with old [of d] show "alert_inv ?w1 (?f d)"
        by (auto simp: alert_inv_def list_all_iff)
    qed
    then have "world_inv ?w2" using w1 c by (simp add: world_inv_def)
    then show ?thesis using Some True id
      by (simp add: timer_fired_def autoResolve_callback_def)
  qed
qed

lemma world_inv_step:
  assumes "world_inv w"
  shows "world_inv (step g op w)"
proof (cases op)
  case (CreateHttp e oc hs uid req now)
  with post_alert_world [of e oc hs uid req now w] assms show ?thesis
    by (auto simp: step_def world_inv_created)
next
  case (CreateSocket sid uid req now)
  with on_emergency_alert_world [of g sid uid req now w] assms show ?thesis
    by (auto simp: step_def world_inv_created)
next
  case (RespondHttp aid uid m e now)
  show ?thesis
  proof (cases "respond_read_http aid uid m e now w")
    case (Inl err)
    with RespondHttp assms show ?thesis by (simp add: step_def post_respond_def)
  next
    case (Inr p)
    with RespondHttp assms respond_read_http_pending [OF Inr] show ?thesis
      by (simp add: step_def post_respond_def world_inv_respond_save)
  qed
next
  case (RespondSocket sid uid aid m e now)
  show ?thesis
  proof (cases "respond_read_socket uid aid m e now w")
    case (Inl err)
    with RespondSocket assms show ?thesis by (simp add: step_def on_emergency_response_def)
  next
    case (Inr p)
    with RespondSocket assms respond_read_socket_pending [OF Inr] show ?thesis
      by (simp add: step_def on_emergency_response_def respond_finish_socket_def
            world_inv_respond_save)
  qed
next
  case (RespondHttpRead aid uid m e now)
  show ?thesis
  proof (cases "respond_read_http aid uid m e now w")
    case (Inl err)
    with RespondHttpRead assms show ?thesis by (simp add: step_def)
  next
    case (Inr p)
    have "list_all (\<lambda>sp. p_status (snd sp) = Some Responded) (inflight w @ [(None, p)])"
      using assms respond_read_http_pending [OF Inr] by (simp add: world_inv_def)
    with RespondHttpRead Inr assms show ?thesis by (simp add: step_def world_inv_inflight)
  qed
next
  case (RespondSocketRead sid uid aid m e now)
  show ?thesis
  proof (cases "respond_read_socket uid aid m e now w")
    case (Inl err)
    with RespondSocketRead assms show ?thesis by (simp add: step_def)
  next
    case (Inr p)
    have "list_all (\<lambda>sp. p_status (snd sp) = Some Responded) (inflight w @ [(Some sid, p)])"
      using assms respond_read_socket_pending [OF Inr] by (simp add: world_inv_def)
    with RespondSocketRead Inr assms show ?thesis by (simp add: step_def world_inv_inflight)
  qed
next
  case (RespondSave k now)
  show ?thesis
  proof (cases "k < length (inflight w)")
    case False
    with RespondSave assms show ?thesis by (simp add: step_def)
  next
    case True
    obtain s p where sp: "inflight w ! k = (s, p)" by (cases "inflight w ! k")
    have all: "list_all (\<lambda>sp. p_status (snd sp) = Some Responded) (inflight w)"
      using assms by (simp add: world_inv_def)
    with True sp have ps: "p_status p = Some Responded"
      by (auto simp: list_all_length)
    have "set (take k (inflight w) @ drop (Suc k) (inflight w)) \<subseteq> set (inflight w)"
      by (auto dest: in_set_takeD in_set_dropD)
    with all have "list_all (\<lambda>sp. p_status (snd sp) = Some Responded)
                     (take k (inflight w) @ drop (Suc k) (inflight w))"
      unfolding list_all_iff by blast
    then have "world_inv (w\<lparr>inflight := take k (inflight w) @ drop (Suc k) (inflight w)\<rparr>)"
      using assms by (rule world_inv_inflight [rotated])
    from world_inv_respond_save [OF this ps, of now] RespondSave True sp show ?thesis
      by (cases s) (simp_all add: step_def respond_finish_socket_def)
  qed
next
  case (ResolveHttp aid uid now)
  with assms show ?thesis by (simp add: step_def put_resolve_unchanged)
next
  case (TimerFired aid now)
  with assms show ?thesis by (simp add: step_def world_inv_timer_fired)
qed

lemma world_inv_run: "world_inv w \<Longrightarrow> world_inv (run g ops w)"
  by (induction ops arbitrary: w) (simp_all add: world_inv_step)

section \<open>Concluded alerts\<close>









section \<open>Responders listed twice\<close>

lemma single_respond_save:
  assumes "list_all (\<lambda>d. length (a_responders d) \<le> 1) (db_alerts w)"
    and "findById (p_alertId p) (db_alerts w) = Some d" "a_responders d = []"
  shows "list_all (\<lambda>d. length (a_responders d) \<le> 1) (db_alerts (respond_save p now w))"
proof -
  let ?f = "\<lambda>s. s\<lparr>a_responders := a_responders s @ [p_responder p],
                   a_status := (case p_status p of None \<Rightarrow> a_status s | Some st \<Rightarrow> st),
                   a_updatedAt := now\<rparr>"
  have "list_all (\<lambda>d. length (a_responders d) \<le> 1) (update_alert (p_alertId p) ?f (db_alerts w))"
  proof (rule list_all_update_alert [OF assms(1)])
    fix d' assume "findById (p_alertId p) (db_alerts w) = Some d'"
    with assms(2,3) show "length (a_responders (?f d')) \<le> 1" by simp
  qed
  then show ?thesis by (simp add: respond_save_def)
qed

lemma single_update_same_responders:
  assumes "list_all (\<lambda>d. length (a_responders d) \<le> 1) ds"
    and "\<And>d. a_responders (f d) = a_responders d"
  shows "list_all (\<lambda>d. length (a_responders d) \<le> 1) (update_alert i f ds)"
proof (rule list_all_update_alert [OF assms(1)])
  fix d assume "findById i ds = Some d"
  then have "d \<in> set ds" using findById_mem by blast
  with assms show "length (a_responders (f d)) \<le> 1" by (auto simp: list_all_iff)
qed

lemma read_http_active:
  assumes "respond_read_http aid uid m e now w = Inr p"
  shows "\<exists>d. findById aid (db_alerts w) = Some d \<and> a_status d = Active"
  using assms by (auto simp: respond_read_http_def split: option.splits if_splits)

lemma read_socket_active:
  assumes "respond_read_socket uid aid m e now w = Inr p"
  shows "\<exists>d. findById aid (db_alerts w) = Some d \<and> a_status d = Active"
  using assms by (auto simp: respond_read_socket_def split: option.splits if_splits)

lemma active_no_responders:
  assumes "world_inv w" "findById aid (db_alerts w) = Some d" "a_status d = Active"
  shows "a_responders d = []"
proof -
  from assms(1,2) findById_mem have "alert_inv w d" by (auto simp: world_inv_def list_all_iff)
  with assms(3) show ?thesis by (simp add: alert_inv_def)
qed

lemma unsplit_inv_step:
  assumes "unsplit_inv w" "unsplit op"
  shows "unsplit_inv (step g op w)"
proof -
  from assms(1) have inv: "world_inv w" and nf: "inflight w = []"
    and one: "list_all (\<lambda>d. length (a_responders d) \<le> 1) (db_alerts w)"
    by (simp_all add: unsplit_inv_def)
  have inv': "world_inv (step g op w)" using inv by (rule world_inv_step)
  have "inflight (step g op w) = []
        \<and> list_all (\<lambda>d. length (a_responders d) \<le> 1) (db_alerts (step g op w))"
  proof (cases op)
    case (CreateHttp e oc hs uid req now)
    with post_alert_world [of e oc hs uid req now w] nf one show ?thesis
      by (auto simp: step_def scheduleAutoResolve_def)
  next
    case (CreateSocket sid uid req now)
    with on_emergency_alert_world [of g sid uid req now w] nf one show ?thesis
      by (auto simp: step_def scheduleAutoResolve_def)
  next
    case (RespondHttp aid uid m e now)
    show ?thesis
    proof (cases "respond_read_http aid uid m e now w")
      case (Inl err)
      with RespondHttp nf one show ?thesis by (simp add: step_def post_respond_def)
    next
      case (Inr p)
      from read_http_active [OF Inr] obtain d where
        d: "findById aid (db_alerts w) = Some d" "a_status d = Active" by blast
      from respond_read_http_pending [OF Inr] have pid: "p_alertId p = aid" by simp
      from single_respond_save [OF one, of p d now] d active_no_responders [OF inv d] pid
      have "list_all (\<lambda>d. length (a_responders d) \<le> 1) (db_alerts (respond_save p now w))"
        by simp
      with RespondHttp Inr nf show ?thesis
        by (simp add: step_def post_respond_def respond_save_def)
    qed
  next
    case (RespondSocket sid uid aid m e now)
    show ?thesis
    proof (cases "respond_read_socket uid aid m e now w")
      case (Inl err)
      with RespondSocket nf one show ?thesis by (simp add: step_def on_emergency_response_def)
    next
      case (Inr p)
      from read_socket_active [OF Inr] obtain d where
        d: "findById aid (db_alerts w) = Some d" "a_status d = Active" by blast
      from respond_read_socket_pending [OF Inr] have pid: "p_alertId p = aid" by simp
      from single_respond_save [OF one, of p d now] d active_no_responders [OF inv d] pid
      have "list_all (\<lambda>d. length (a_responders d) \<le> 1) (db_alerts (respond_save p now w))"
        by simp
      with RespondSocket Inr nf show ?thesis
        by (simp add: step_def on_emergency_response_def respond_finish_socket_def
              respond_save_def)
    qed
  next
    case (RespondHttpRead aid uid m e now)
    with assms(2) show ?thesis by simp
  next
    case (RespondSocketRead sid uid aid m e now)
    with assms(2) show ?thesis by simp
  next
    case (RespondSave k now)
    with assms(2) show ?thesis by simp
  next
    case (ResolveHttp aid uid now)
    with nf one show ?thesis by (simp add: step_def put_resolve_unchanged)
  next
    case (TimerFired j now)
    have upd: "list_all (\<lambda>d. length (a_responders d) \<le> 1)
                 (update_alert i (\<lambda>d. d\<lparr>a_status := Resolved, a_autoResolved := True,
                         a_resolvedAt := Some now, a_updatedAt := now\<rparr>) (db_alerts w))" for i
      by (rule single_update_same_responders [OF one]) simp
    have "inflight (timer_fired j now w) = []"
      using nf by (simp add: timer_fired_def autoResolve_callback_def split: option.splits)
    moreover have "list_all (\<lambda>d. length (a_responders d) \<le> 1) (db_alerts (timer_fired j now w))"
    proof (cases "find (\<lambda>d. a_id d = j) (timers w)")
      case None
      with one show ?thesis by (simp add: timer_fired_def)
    next
      case (Some this)
      show ?thesis
      proof (cases "a_status this = Active")
        case True
        with Some upd [of "a_id this"] show ?thesis
          by (simp add: timer_fired_def autoResolve_callback_def)
      next
        case False
        with Some one show ?thesis by (simp add: timer_fired_def autoResolve_callback_def)
      qed
    qed
    ultimately show ?thesis using TimerFired by (simp add: step_def)
  qed
  with inv' show ?thesis by (simp add: unsplit_inv_def)
qed

lemma unsplit_inv_run:
  "unsplit_inv w \<Longrightarrow> list_all unsplit ops \<Longrightarrow> unsplit_inv (run g ops w)"
  by (induction ops arbitrary: w) (simp_all add: unsplit_inv_step)

text \<open>
  C7, as the code has it. In every world that the server reaches from its start, under
  any interleaving, a user who is in the responder list of an alert is refused when
  responding again, on both entry points and without any change; the refusal is the one
  of the status check, which runs first (HTTP 400 "Emergency alert is no longer active",
  socket "Emergency alert not found or not active"), because an alert with a responder
  is no longer active. If no respond of the run was split at its await by another
  operation, that user is the only entry of the list.
\<close>

theorem repeated_respond_rejected:
  assumes "fresh w0" and "w = run g ops w0"
    and "findById aid (db_alerts w) = Some d"
    and "uid \<in> set (map r_user (a_responders d))"
  shows "post_respond aid uid m e now w = (Inl AlertNotActive, w)
       \<and> on_emergency_response sid uid aid m e now w
           = ([(sid, ErrorEvent SocketNotFoundOrNotActive)], w)
       \<and> (list_all unsplit ops \<longrightarrow> map r_user (a_responders d) = [uid])"
proof -
  have inv: "world_inv w" using assms(1,2) by (simp add: fresh_world_inv world_inv_run)
  from assms(4) have ne: "a_responders d \<noteq> []" by auto
  with active_no_responders [OF inv assms(3)] have na: "a_status d \<noteq> Active" by blast
  have "map r_user (a_responders d) = [uid]" if "list_all unsplit ops"
  proof -
    have "unsplit_inv w0" using assms(1) by (simp add: unsplit_inv_def fresh_world_inv fresh_def)
    from unsplit_inv_run [OF this that] assms(2) have "unsplit_inv w" by simp
    with assms(3) findById_mem have "length (a_responders d) \<le> 1"
      by (auto simp: unsplit_inv_def list_all_iff)
    with assms(4) show ?thesis by (cases "a_responders d") auto
  qed
  then show ?thesis
    using respond_not_active_http [OF assms(3) na] respond_not_active_socket [OF assms(3) na]
    by simp
qed

theorem repeated_respond_rejected_witness:
  "fresh demo_world
   \<and> demo_responded = run demo_dist
        [CreateHttp demo_env all_fail [] 1 demo_request 0, RespondHttp 100 2 None None 60000]
        demo_world
   \<and> findById 100 (db_alerts demo_responded) = Some (hd (db_alerts demo_responded))
   \<and> 2 \<in> set (map r_user (a_responders (hd (db_alerts demo_responded))))
   \<and> list_all unsplit
        [CreateHttp demo_env all_fail [] 1 demo_request 0, RespondHttp 100 2 None None 60000]
   \<and> post_respond 100 2 None None 120000 demo_responded = (Inl AlertNotActive, demo_responded)
   \<and> on_emergency_response ''s2'' 2 100 None None 120000 demo_responded
       = ([(''s2'', ErrorEvent SocketNotFoundOrNotActive)], demo_responded)
   \<and> map r_user (a_responders (hd (db_alerts demo_responded))) = [2]"
proof -
  have h1: "fresh demo_world" by code_simp
  have h2: "demo_responded = run demo_dist
        [CreateHttp demo_env all_fail [] 1 demo_request 0, RespondHttp 100 2 None None 60000]
        demo_world"
    by (simp add: demo_responded_def demo_created_def step_def)
  have h3: "findById 100 (db_alerts demo_responded) = Some (hd (db_alerts demo_responded))"
    by code_simp
  have h4: "2 \<in> set (map r_user (a_responders (hd (db_alerts demo_responded))))"
    by code_simp
  have h5: "list_all unsplit
        [CreateHttp demo_env all_fail [] 1 demo_request 0, RespondHttp 100 2 None None 60000]"
    by simp
  from repeated_respond_rejected [OF h1 h2 h3 h4] h1 h2 h3 h4 h5 show ?thesis by blast
qed

text \<open>
  C7 as stated fails twice. The second respond of rider 2, the listed responder of alert
  100, is answered with AlertNotActive, not with DuplicateResponse. And when rider 2
  sends the socket event twice and both handlers read the active alert before either
  save reaches the store, rider 2 is listed twice.
\<close>

theorem repeated_respond_counterexample:
  "map_option (map r_user \<circ> a_responders) (findById 100 (db_alerts demo_responded)) = Some [2]
   \<and> fst (post_respond 100 2 None None 120000 demo_responded) = Inl AlertNotActive
   \<and> fst (post_respond 100 2 None None 120000 demo_responded) \<noteq> Inl DuplicateResponse
   \<and> map (map r_user \<circ> a_responders)
        (db_alerts
           (run demo_dist
              [RespondSocketRead ''s2'' 2 100 None None 1000,
               RespondSocketRead ''s2'' 2 100 None None 1001,
               RespondSave 0 1002, RespondSave 0 1003] demo_created))
       = [[2, 2]]"
  by code_simp

section \<open>Pushes over a whole run\<close>

lemma push_ids_append: "push_ids (xs @ ys) = push_ids xs @ push_ids ys"
  by (simp add: push_ids_def)

lemma push_targets_append: "push_targets aid (xs @ ys) = push_targets aid xs @ push_targets aid ys"
  by (simp add: push_targets_def)

lemma push_ids_notify_nearby: "set (push_ids (notify_nearby conn aid sender us)) \<subseteq> {aid}"
  by (induction us) (auto simp: push_ids_def split: option.splits)

lemma push_targets_ids:
  "push_targets aid ems \<noteq> [] \<Longrightarrow> aid \<in> set (push_ids ems)"
proof (induction ems)
  case Nil
  then show ?case by (simp add: push_targets_def)
next
  case (Cons em ems)
  obtain s ev where em: "em = (s, ev)" by (cases em)
  show ?case
  proof (cases "is_push aid ev")
    case True
    then show ?thesis using em by (cases ev) (simp_all add: push_ids_def)
  next
    case False
    with Cons em show ?thesis by (simp add: push_targets_def push_ids_def)
  qed
qed

lemma push_ids_respond_finish: "push_ids (fst (respond_finish_socket sid p now w)) = []"
  by (simp add: respond_finish_socket_def push_ids_def split: option.splits)

lemma push_ids_on_emergency_response:
  "push_ids (fst (on_emergency_response sid uid aid m e now w)) = []"
proof (cases "respond_read_socket uid aid m e now w")
  case (Inl err)
  then show ?thesis by (simp add: on_emergency_response_def push_ids_def)
next
  case (Inr p)
  then show ?thesis by (simp add: on_emergency_response_def push_ids_respond_finish)
qed

lemma on_emergency_alert_cases:
  "on_emergency_alert g sid uid req now w = ([(sid, ErrorEvent SocketFailed)], w)
   \<or> (\<exists>loc a. q_location req = Some loc
         \<and> save_new_alert (next_oid w) uid (q_type req) (q_severity req) loc
              (q_description req) [] now = Some a)"
  by (cases "q_location req") (auto simp: on_emergency_alert_def split: option.splits)

lemma next_oid_on_emergency_alert_saved:
  assumes "q_location req = Some loc"
    and "save_new_alert (next_oid w) uid (q_type req) (q_severity req) loc (q_description req)
           [] now = Some a"
  shows "next_oid (snd (on_emergency_alert g sid uid req now w)) = Suc (next_oid w)"
  using assms by (simp add: on_emergency_alert_def Let_def scheduleAutoResolve_def)

lemma push_ids_step:
  "set (push_ids (fst (step_out g op w))) \<subseteq> {next_oid w}
   \<and> (push_ids (fst (step_out g op w)) \<noteq> [] \<longrightarrow> next_oid (step g op w) = Suc (next_oid w))"
proof (cases op)
  case (CreateSocket sid uid req now)
  from on_emergency_alert_cases [of g sid uid req now w] show ?thesis
  proof
    assume "on_emergency_alert g sid uid req now w = ([(sid, ErrorEvent SocketFailed)], w)"
    with CreateSocket show ?thesis by (simp add: push_ids_def)
  next
    assume "\<exists>loc a. q_location req = Some loc
         \<and> save_new_alert (next_oid w) uid (q_type req) (q_severity req) loc
              (q_description req) [] now = Some a"
    then obtain loc a where s: "q_location req = Some loc"
      "save_new_alert (next_oid w) uid (q_type req) (q_severity req) loc
              (q_description req) [] now = Some a" by blast
    have "set (push_ids (fst (on_emergency_alert g sid uid req now w))) \<subseteq> {next_oid w}"
      using push_ids_notify_nearby
      by (simp add: on_emergency_alert_saved [OF s] push_ids_append) (simp add: push_ids_def)
    with next_oid_on_emergency_alert_saved [OF s, of g sid] CreateSocket show ?thesis
      by (simp add: step_def)
  qed
next
  case (RespondSocket sid uid aid m e now)
  then show ?thesis by (simp add: push_ids_on_emergency_response)
next
  case (RespondSocketRead sid uid aid m e now)
  then show ?thesis by (simp add: push_ids_def split: sum.splits)
next
  case (RespondSave k now)
  show ?thesis
  proof (cases "k < length (inflight w)")
    case False
    with RespondSave show ?thesis by (simp add: push_ids_def)
  next
    case True
    obtain s p where sp: "inflight w ! k = (s, p)" by (cases "inflight w ! k")
    show ?thesis
    proof (cases s)
      case None
      with RespondSave True sp show ?thesis by (simp add: push_ids_def)
    next
      case (Some sid)
      with RespondSave True sp show ?thesis by (simp add: push_ids_respond_finish)
    qed
  qed
qed (simp_all add: push_ids_def split: sum.splits)

lemma next_oid_respond_save: "next_oid (respond_save p now w) = next_oid w"
  by (simp add: respond_save_def)

lemma next_oid_step: "next_oid w \<le> next_oid (step g op w)"
proof (cases op)
  case (CreateHttp e oc hs uid req now)
  with post_alert_world [of e oc hs uid req now w] show ?thesis
    by (auto simp: step_def scheduleAutoResolve_def)
next
  case (CreateSocket sid uid req now)
  with on_emergency_alert_world [of g sid uid req now w] show ?thesis
    by (auto simp: step_def scheduleAutoResolve_def)
next
  case (RespondHttp aid uid m e now)
  then show ?thesis by (simp add: step_def post_respond_def next_oid_respond_save split: sum.splits)
next
  case (RespondSocket sid uid aid m e now)
  then show ?thesis
    by (simp add: step_def on_emergency_response_def respond_finish_socket_def
          next_oid_respond_save split: sum.splits)
next
  case (RespondHttpRead aid uid m e now)
  then show ?thesis by (simp add: step_def split: sum.splits)
next
  case (RespondSocketRead sid uid aid m e now)
  then show ?thesis by (simp add: step_def split: sum.splits)
next
  case (RespondSave k now)
  then show ?thesis
    by (auto simp: step_def respond_finish_socket_def next_oid_respond_save
             split: prod.splits option.splits)
next
  case (ResolveHttp aid uid now)
  then show ?thesis by (simp add: step_def put_resolve_unchanged)
next
  case (TimerFired j now)
  then show ?thesis
    by (simp add: step_def timer_fired_def autoResolve_callback_def split: option.splits)
qed

lemma push_ids_run: "i \<in> set (push_ids (run_out g ops w)) \<Longrightarrow> next_oid w \<le> i"
proof (induction ops arbitrary: w)
  case Nil
  then show ?case by (simp add: push_ids_def)
next
  case (Cons op ops)
  from Cons.prems have "i \<in> set (push_ids (fst (step_out g op w)))
                        \<or> i \<in> set (push_ids (run_out g ops (step g op w)))"
    by (simp add: push_ids_append)
  then show ?case
  proof
    assume "i \<in> set (push_ids (fst (step_out g op w)))"
    with push_ids_step [of g op w] show ?thesis by auto
  next
    assume "i \<in> set (push_ids (run_out g ops (step g op w)))"
    from Cons.IH [OF this] next_oid_step [of w g op] show ?thesis by simp
  qed
qed


lemma step_keeps_users:
  "map u_id (db_users (step g op w)) = map u_id (db_users w)
   \<and> connectedUsers (step g op w) = connectedUsers w"
proof -
  have inc: "map u_id (inc_stats i us) = map u_id us" for i us
    by (induction us) (simp_all add: inc_stats_def)
  have sv: "map u_id (db_users (respond_save p now v)) = map u_id (db_users v)
            \<and> connectedUsers (respond_save p now v) = connectedUsers v" for p now v
    by (simp add: respond_save_def inc)
  show ?thesis
  proof (cases op)
    case (CreateHttp e oc hs uid req now)
    with post_alert_world [of e oc hs uid req now w] show ?thesis
      by (auto simp: step_def scheduleAutoResolve_def)
  next
    case (CreateSocket sid uid req now)
    with on_emergency_alert_world [of g sid uid req now w] show ?thesis
      by (auto simp: step_def scheduleAutoResolve_def)
  next
    case (RespondHttp aid uid m e now)
    then show ?thesis by (simp add: step_def post_respond_def sv split: sum.splits)
  next
    case (RespondSocket sid uid aid m e now)
    then show ?thesis
      by (simp add: step_def on_emergency_response_def respond_finish_socket_def sv
            split: sum.splits)
  next
    case (RespondHttpRead aid uid m e now)
    then show ?thesis by (simp add: step_def split: sum.splits)
  next
    case (RespondSocketRead sid uid aid m e now)
    then show ?thesis by (simp add: step_def split: sum.splits)
  next
    case (RespondSave k now)
    show ?thesis
    proof (cases "k < length (inflight w)")
      case False
      with RespondSave show ?thesis by (simp add: step_def)
    next
      case True
      obtain s p where sp: "inflight w ! k = (s, p)" by (cases "inflight w ! k")
      with RespondSave True
        sv [of p now "w\<lparr>inflight := take k (inflight w) @ drop (Suc k) (inflight w)\<rparr>"]
      show ?thesis by (cases s) (simp_all add: step_def respond_finish_socket_def)
    qed
  next
    case (ResolveHttp aid uid now)
    then show ?thesis by (simp add: step_def put_resolve_unchanged)
  next
    case (TimerFired j now)
    then show ?thesis
      by (simp add: step_def timer_fired_def autoResolve_callback_def split: option.splits)
  qed
qed

lemma push_ids_other:
  assumes "\<And>sid uid req now. op \<noteq> CreateSocket sid uid req now"
  shows "push_ids (fst (step_out g op w)) = []"
proof (cases op)
  case (CreateSocket sid uid req now)
  with assms show ?thesis by blast
next
  case (RespondSocket sid uid aid m e now)
  then show ?thesis by (simp add: push_ids_on_emergency_response)
next
  case (RespondSocketRead sid uid aid m e now)
  then show ?thesis by (simp add: push_ids_def split: sum.splits)
next
  case (RespondSave k now)
  show ?thesis
  proof (cases "k < length (inflight w)")
    case False
    with RespondSave show ?thesis by (simp add: push_ids_def)
  next
    case True
    obtain s p where sp: "inflight w ! k = (s, p)" by (cases "inflight w ! k")
    show ?thesis
    proof (cases s)
      case None
      with RespondSave True sp show ?thesis by (simp add: push_ids_def)
    next
      case (Some sid)
      with RespondSave True sp show ?thesis by (simp add: push_ids_respond_finish)
    qed
  qed
qed (simp_all add: push_ids_def split: sum.splits)

lemma push_targets_step:
  assumes "distinct (map u_id (db_users w))"
    and "inj_on (connectedUsers w) (dom (connectedUsers w))"
  shows "distinct (push_targets aid (fst (step_out g op w)))"
proof (cases "\<exists>sid uid req now. op = CreateSocket sid uid req now")
  case False
  then have "push_ids (fst (step_out g op w)) = []" by (intro push_ids_other) blast
  with push_targets_ids [of aid "fst (step_out g op w)"] have
    "push_targets aid (fst (step_out g op w)) = []" by auto
  then show ?thesis by simp
next
  case True
  then obtain sid uid req now where op: "op = CreateSocket sid uid req now" by blast
  from on_emergency_alert_cases [of g sid uid req now w] show ?thesis
  proof
    assume "on_emergency_alert g sid uid req now w = ([(sid, ErrorEvent SocketFailed)], w)"
    with op show ?thesis by (simp add: push_targets_def)
  next
    assume "\<exists>loc a. q_location req = Some loc
         \<and> save_new_alert (next_oid w) uid (q_type req) (q_severity req) loc
              (q_description req) [] now = Some a"
    then obtain loc a where s: "q_location req = Some loc"
      "save_new_alert (next_oid w) uid (q_type req) (q_severity req) loc
              (q_description req) [] now = Some a" by blast
    let ?nb = "findNearby g (fst (coordinates (a_location a))) (snd (coordinates (a_location a)))
                 10000 False (db_users w)"
    have "distinct (map u_id ?nb)" using assms(1) by (rule findNearby_distinct)
    from distinct_targets [OF this assms(2)] op show ?thesis
      by (simp add: on_emergency_alert_saved [OF s] push_targets_snoc_ack
            push_targets_notify_nearby)
  qed
qed

text \<open>
  C6. Over any run of the server, under any interleaving, the \<open>emergency-alert\<close> pushes
  that carry a given alert id go to pairwise different sockets: no candidate is pushed
  the same alert twice (user ids being unique in the collection and each connected user
  having its own socket). The fan-out loop has one call site, in the handler that has
  just stored the alert under a new id, so it runs once per alert.
\<close>

theorem at_most_one_push_per_alert:
  assumes "distinct (map u_id (db_users w))"
    and "inj_on (connectedUsers w) (dom (connectedUsers w))"
  shows "distinct (push_targets aid (run_out g ops w))"
  using assms
proof (induction ops arbitrary: w)
  case Nil
  then show ?case by (simp add: push_targets_def)
next
  case (Cons op ops)
  let ?w' = "step g op w"
  from step_keeps_users [of g op w] Cons.prems
  have k: "distinct (map u_id (db_users ?w'))"
    "inj_on (connectedUsers ?w') (dom (connectedUsers ?w'))" by simp_all
  have first: "distinct (push_targets aid (fst (step_out g op w)))"
    using Cons.prems by (rule push_targets_step)
  have rest: "distinct (push_targets aid (run_out g ops ?w'))"
    using k by (rule Cons.IH)
  have "push_targets aid (fst (step_out g op w)) = []
        \<or> push_targets aid (run_out g ops ?w') = []"
  proof (cases "push_targets aid (fst (step_out g op w)) = []")
    case True
    then show ?thesis by simp
  next
    case False
    from push_targets_ids [OF False] push_ids_step [of g op w]
    have a: "aid = next_oid w" and n: "next_oid ?w' = Suc (next_oid w)" by auto
    have "push_targets aid (run_out g ops ?w') = []"
    proof (rule ccontr)
      assume "push_targets aid (run_out g ops ?w') \<noteq> []"
      from push_ids_run [OF push_targets_ids [OF this]] a n show False by simp
    qed
    then show ?thesis by simp
  qed
  with first rest show ?case by (auto simp: push_targets_append)
qed

theorem at_most_one_push_per_alert_witness:
  "distinct (map u_id (db_users demo_world))
   \<and> inj_on (connectedUsers demo_world) (dom (connectedUsers demo_world))
   \<and> push_targets 100
        (run_out demo_dist
           [CreateSocket ''s1'' 1 demo_request 0, RespondSocket ''s2'' 2 100 None None 60000,
            CreateSocket ''s1'' 1 demo_request 400000] demo_world) = [''s2'']
   \<and> push_targets 101
        (run_out demo_dist
           [CreateSocket ''s1'' 1 demo_request 0, RespondSocket ''s2'' 2 100 None None 60000,
            CreateSocket ''s1'' 1 demo_request 400000] demo_world) = [''s2'']"
proof -
  define ops where "ops = [CreateSocket ''s1'' 1 demo_request 0,
            RespondSocket ''s2'' 2 100 None None 60000,
            CreateSocket ''s1'' 1 demo_request 400000]"
  have h1: "distinct (map u_id (db_users demo_world))" by code_simp
  have h2: "inj_on (connectedUsers demo_world) (dom (connectedUsers demo_world))"
    by (auto simp: demo_world_def inj_on_def dom_def split: if_splits)
  have a: "push_targets 100 (run_out demo_dist ops demo_world) = [''s2'']"
    unfolding ops_def by code_simp
  have b: "push_targets 101 (run_out demo_dist ops demo_world) = [''s2'']"
    unfolding ops_def by code_simp
  from at_most_one_push_per_alert [OF h1 h2, of 100 demo_dist ops]
  have "distinct (push_targets 100 (run_out demo_dist ops demo_world))" .
  with h1 h2 a b show ?thesis unfolding ops_def by blast
qed

end
